theory Spec2Isabelle
  imports Main "HOL-Library.Word"
begin

unbundle bit_operations_syntax

section \<open>Outcomes of a C function\<close>

text \<open>
  The functions modelled here return \<^verbatim>\<open>void\<close>. A model returns \<open>Inr\<close> of the
  updated globals when the C function returns. \<open>Inl\<close> is not a value the C code
  produces: it marks an execution that leaves the C semantics (a store or a copy past the
  end of an array) or one that never returns (the critical-event lockout with no reset).
\<close>

datatype undefined_behaviour = Store_past_array_end | Memmove_past_array_end

datatype halt = Undefined undefined_behaviour | Never_returns

section \<open>The SysTick callback scheduler\<close>

text \<open>
  \<^verbatim>\<open>typedef struct { uint64_t callback_time; void (*cb_function)(); } callback_t;\<close>
  The target is an 8-bit AVR (the code programs Timer1 through \<^verbatim>\<open>TCCR1B\<close>,
  \<^verbatim>\<open>OCR1A\<close>): a function pointer is a 16-bit code address, integers are stored
  little-endian and structs have no padding, so one entry occupies 10 bytes.
\<close>

type_synonym byte = "8 word"
type_synonym fnptr = "16 word"

record callback_t =
  callback_time :: "64 word"
  cb_function :: fnptr

definition MAX_CALLBACKS :: nat where
  "MAX_CALLBACKS = 32"

definition sizeof_callback_t :: nat where
  "sizeof_callback_t = 10"

text \<open>
  The globals of the scheduler: the tick counter, the callback array (always
  \<open>MAX_CALLBACKS\<close> entries long, zero-initialised as C statics are) and its length
  \<^verbatim>\<open>uint8_t systick_len\<close>. \<open>invoked\<close> is not a C variable: it records, in order,
  the code address of every callback the scheduler has called.
\<close>

record systick_t =
  SysTick :: "64 word"
  systick_callbacks_array :: "callback_t list"
  systick_len :: "8 word"
  invoked :: "fnptr list"

subsection \<open>The array as bytes\<close>

definition le_bytes :: "nat \<Rightarrow> 'a::len word \<Rightarrow> byte list" where
  "le_bytes n w = map (\<lambda>i. ucast (drop_bit (8 * i) w)) [0..<n]"

definition le_word :: "byte list \<Rightarrow> 'a::len word" where
  "le_word bs = foldr (\<lambda>b w. ucast b OR push_bit 8 w) bs 0"

definition callback_bytes :: "callback_t \<Rightarrow> byte list" where
  "callback_bytes e = le_bytes 8 (callback_time e) @ le_bytes 2 (cb_function e)"

definition callback_of_bytes :: "byte list \<Rightarrow> callback_t" where
  "callback_of_bytes bs =
     \<lparr>callback_time = le_word (take 8 bs), cb_function = le_word (take 2 (drop 8 bs))\<rparr>"

definition array_bytes :: "callback_t list \<Rightarrow> byte list" where
  "array_bytes es = concat (map callback_bytes es)"

definition array_of_bytes :: "nat \<Rightarrow> byte list \<Rightarrow> callback_t list" where
  "array_of_bytes n bs =
     map (\<lambda>i. callback_of_bytes (take sizeof_callback_t (drop (sizeof_callback_t * i) bs))) [0..<n]"

text \<open>
  \<^verbatim>\<open>memmove(dst, src, n)\<close> inside one object of bytes \<open>m\<close>, with \<open>dst\<close> and \<open>src\<close>
  given as offsets: the \<open>n\<close> bytes from \<open>src\<close> on are copied to \<open>dst\<close> on, as if through
  a temporary buffer. A copy that reads or writes past the end of the object is undefined.
\<close>

definition memmove :: "byte list \<Rightarrow> nat \<Rightarrow> nat \<Rightarrow> nat \<Rightarrow> undefined_behaviour + byte list" where
  "memmove m dst src n =
     (if length m < src + n \<or> length m < dst + n then Inl Memmove_past_array_end
      else Inr (take dst m @ take n (drop src m) @ drop (dst + n) m))"

subsection \<open>systick\_service\_callbacks\<close>

text \<open>
  \<open>run f\<close> is the body of the function at code address \<open>f\<close>, as far as it touches the
  scheduler (a callback may register callbacks, as \<^verbatim>\<open>signals_callback\<close> does).
  The byte count handed to \<^verbatim>\<open>memmove\<close> is \<^verbatim>\<open>systick_len - 1\<close>: the
  \<^verbatim>\<open>uint8_t\<close> is promoted to \<^verbatim>\<open>int\<close>, and the difference is converted to the
  16-bit \<^verbatim>\<open>size_t\<close>.
\<close>

definition size_t_of_int :: "int \<Rightarrow> nat" where
  "size_t_of_int i = nat (i mod 65536)"

definition systick_service_callbacks ::
  "(fnptr \<Rightarrow> systick_t \<Rightarrow> halt + systick_t) \<Rightarrow> systick_t \<Rightarrow> halt + systick_t" where
  "systick_service_callbacks run s =
     (if callback_time (systick_callbacks_array s ! 0) \<ge> SysTick s then
        (case run (cb_function (systick_callbacks_array s ! 0))
                (s\<lparr>invoked := invoked s @ [cb_function (systick_callbacks_array s ! 0)]\<rparr>) of
           Inl h \<Rightarrow> Inl h
         | Inr s1 \<Rightarrow>
            (case memmove (array_bytes (systick_callbacks_array s1)) 0 sizeof_callback_t
                    (size_t_of_int (uint (systick_len s1) - 1)) of
               Inl u \<Rightarrow> Inl (Undefined u)
             | Inr m \<Rightarrow>
                 Inr (s1\<lparr>systick_callbacks_array := array_of_bytes MAX_CALLBACKS m,
                         systick_len := systick_len s1 - 1\<rparr>)))
      else Inr s)"

subsection \<open>systick\_init\<close>

definition systick_init :: "systick_t \<Rightarrow> systick_t" where
  "systick_init s = s\<lparr>SysTick := 0, systick_len := 0\<rparr>"

definition systick_reset_state :: systick_t where
  "systick_reset_state =
     \<lparr>SysTick = 0,
      systick_callbacks_array = replicate MAX_CALLBACKS \<lparr>callback_time = 0, cb_function = 0\<rparr>,
      systick_len = 0, invoked = []\<rparr>"

text \<open>\<^verbatim>\<open>ISR(TIMER1_COMPA_vect)\<close>, every millisecond.\<close>

definition systick_isr :: "systick_t \<Rightarrow> systick_t" where
  "systick_isr s = s\<lparr>SysTick := SysTick s + 1\<rparr>"

subsection \<open>cmp and systick\_sort\_callback\_array\<close>

definition cmp :: "callback_t \<Rightarrow> callback_t \<Rightarrow> int" where
  "cmp cb_a cb_b =
     (if callback_time cb_a < callback_time cb_b then 1
      else if callback_time cb_b < callback_time cb_a then - 1
      else 0)"

text \<open>
  \<^verbatim>\<open>qsort\<close> is the C library's. The C standard fixes its result as the elements in
  ascending order according to the comparison function (an element for which the
  function returns a positive value against another comes after it), and leaves the
  order of elements that compare equal open. The model is an insertion sort; nothing
  below relies on the order it gives to equal elements.
\<close>

fun qsort_insert :: "('a \<Rightarrow> 'a \<Rightarrow> int) \<Rightarrow> 'a \<Rightarrow> 'a list \<Rightarrow> 'a list" where
  "qsort_insert c x [] = [x]"
| "qsort_insert c x (y # ys) = (if c x y \<le> 0 then x # y # ys else y # qsort_insert c x ys)"

definition qsort :: "('a \<Rightarrow> 'a \<Rightarrow> int) \<Rightarrow> 'a list \<Rightarrow> 'a list" where
  "qsort c xs = foldr (qsort_insert c) xs []"

definition systick_sort_callback_array :: "systick_t \<Rightarrow> systick_t" where
  "systick_sort_callback_array s =
     s\<lparr>systick_callbacks_array :=
         qsort cmp (take (unat (systick_len s)) (systick_callbacks_array s))
         @ drop (unat (systick_len s)) (systick_callbacks_array s)\<rparr>"

subsection \<open>systick\_register\_callback\<close>

text \<open>
  \<^verbatim>\<open>unsigned long ms_later\<close> is 32 bits wide and is converted to 64 bits for the sum.
  The store \<^verbatim>\<open>systick_callbacks_array[systick_len] = to_insert\<close> has no guard in
  the source; at an index of \<open>MAX_CALLBACKS\<close> or more it lands past the array.
\<close>

definition systick_register_callback :: "32 word \<Rightarrow> fnptr \<Rightarrow> systick_t \<Rightarrow> halt + systick_t" where
  "systick_register_callback ms_later func s =
     (let to_insert = \<lparr>callback_time = SysTick s + ucast ms_later, cb_function = func\<rparr>
      in if MAX_CALLBACKS \<le> unat (systick_len s) then Inl (Undefined Store_past_array_end)
         else Inr (systick_sort_callback_array
                (s\<lparr>systick_callbacks_array :=
                     (systick_callbacks_array s)[unat (systick_len s) := to_insert],
                   systick_len := systick_len s + 1\<rparr>)))"

section \<open>The runtime dispatcher (protocol.c)\<close>

text \<open>
  Line numbers are those of the source file that holds \<^verbatim>\<open>systick.c\<close> followed by
  \<^verbatim>\<open>protocol.c\<close>.
\<close>

subsection \<open>Constants of system.h\<close>

text \<open>
  \<^verbatim>\<open>system.h\<close>, \<^verbatim>\<open>settings.h\<close>, \<^verbatim>\<open>report.h\<close> and the pin map are not among the
  sources, so the bit masks and state codes they define are a parameter of the model.
  The flag word and the machine state are \<^verbatim>\<open>uint8_t\<close>.
\<close>

record system_h =
  EXEC_RUNTIME_REPORT :: "8 word"
  EXEC_CYCLE_START :: "8 word"
  EXEC_CYCLE_STOP :: "8 word"
  EXEC_FEED_HOLD :: "8 word"
  EXEC_RESET :: "8 word"
  EXEC_ALARM :: "8 word"
  EXEC_CRIT_EVENT :: "8 word"
  STATE_IDLE :: "8 word"
  STATE_ALARM :: "8 word"
  STATE_HOMING :: "8 word"
  STATE_QUEUED :: "8 word"
  STATE_CYCLE :: "8 word"
  STATE_HOLD :: "8 word"
  STATE_FORCESERVO :: "8 word"
  STATE_PROBING :: "8 word"
  REQUEST_STATUS_REPORT :: "8 word"
  REQUEST_LIMIT_REPORT :: "8 word"
  REQUEST_COUNTER_REPORT :: "8 word"
  REQUEST_VOLTAGE_REPORT :: "8 word"
  REQUEST_EDGE_REPORT :: "8 word"
  SYSFLAG_AUTOSTART :: "8 word"
  BITFLAG_AUTO_START :: "8 word"
  LIMIT_MASK :: "8 word"
  ESTOP_MASK :: "8 word"
  IO_RESET_MASK :: "8 word"

text \<open>
  What the theorems below ask of the constants: the seven event masks are non-zero and
  share no bit, and the eight state codes are different from one another.
\<close>

fun independent_bits :: "8 word list \<Rightarrow> bool" where
  "independent_bits [] = True"
| "independent_bits (m # ms) = (m \<noteq> 0 \<and> list_all (\<lambda>m'. m AND m' = 0) ms \<and> independent_bits ms)"

definition wf_system_h :: "system_h \<Rightarrow> bool" where
  "wf_system_h c =
     (independent_bits [EXEC_RUNTIME_REPORT c, EXEC_CYCLE_START c, EXEC_CYCLE_STOP c,
        EXEC_FEED_HOLD c, EXEC_RESET c, EXEC_ALARM c, EXEC_CRIT_EVENT c] \<and>
      distinct [STATE_IDLE c, STATE_ALARM c, STATE_HOMING c, STATE_QUEUED c, STATE_CYCLE c,
        STATE_HOLD c, STATE_FORCESERVO c, STATE_PROBING c])"

text \<open>
  One instance, used to run the model: the event and state bits in the order of
  upstream Grbl 0.9, with the two states this fork adds on the free high bits.
\<close>

definition example_system_h :: system_h where
  "example_system_h =
     \<lparr>EXEC_RUNTIME_REPORT = 1, EXEC_CYCLE_START = 2, EXEC_CYCLE_STOP = 4, EXEC_FEED_HOLD = 8,
      EXEC_RESET = 16, EXEC_ALARM = 32, EXEC_CRIT_EVENT = 64,
      STATE_IDLE = 0, STATE_ALARM = 1, STATE_HOMING = 4, STATE_QUEUED = 8, STATE_CYCLE = 16,
      STATE_HOLD = 32, STATE_FORCESERVO = 64, STATE_PROBING = 128,
      REQUEST_STATUS_REPORT = 1, REQUEST_LIMIT_REPORT = 2, REQUEST_COUNTER_REPORT = 4,
      REQUEST_VOLTAGE_REPORT = 8, REQUEST_EDGE_REPORT = 16,
      SYSFLAG_AUTOSTART = 1, BITFLAG_AUTO_START = 2,
      LIMIT_MASK = 15, ESTOP_MASK = 16, IO_RESET_MASK = 32\<rparr>"

subsection \<open>Globals, collaborators and environment\<close>

text \<open>
  The functions of the planner, the stepper engine, the motor driver and the report layer
  are not among the sources. A call of one of them is recorded in \<open>calls\<close>, in order; what
  it does to its own module is outside the model, and it is taken not to write the
  variables below.
\<close>

datatype message = MESSAGE_CRITICAL_EVENT

datatype event =
    Motor_drv_init
  | St_check_disable
  | Request_eol_report
  | Report_alarm_message "8 word"
  | Report_feedback_message message
  | Report_realtime_status
  | Report_limit_pins
  | Report_counters
  | Report_voltage
  | Magazine_report_edge_events
  | St_update_plan_block_parameters
  | St_prep_buffer
  | St_wake_up

record machine =
  SYS_EXEC :: "8 word"
  report_rqsts :: "8 word"
  sys_state :: "8 word"
  sys_old_state :: "8 word"
  sys_abort :: bool
  sys_alarm :: "8 word"
  sys_flags :: "8 word"
  sys_limit_state :: "8 word"
  sys_old_limit_state :: "8 word"
  sys_last_estop_state :: "8 word"
  settings_spi_motor_drivers :: bool
  settings_flags :: "8 word"
  IO_RESET_PORT :: "8 word"
  systick :: systick_t
  calls :: "event list"

text \<open>
  What one dispatcher pass reads from outside: the bodies of the registered callbacks,
  the two input ports, the values the collaborators' functions return (\<open>True\<close> for a
  non-zero value or a non-null pointer), and \<open>reset_irqs\<close>, the bits that interrupt
  handlers set in the flag word before each successive read of it in the critical-event
  lockout; after the last element no interrupt sets a bit any more.

  Interrupt handlers set bits of the flag word at any time. In the model they do so
  between two passes (the flag word a pass starts from holds what they have set so far)
  and during the lockout, where the code waits for them; a bit set while a pass is under
  way counts as set before the pass or after it.
\<close>

record environment =
  callback_body :: "fnptr \<Rightarrow> systick_t \<Rightarrow> halt + systick_t"
  LIMIT_PIN :: "8 word"
  ESTOP_PIN :: "8 word"
  linenumber_peek :: bool
  report_realtime_status :: bool
  plan_get_current_block :: bool
  reset_irqs :: "8 word list"

definition call :: "event \<Rightarrow> machine \<Rightarrow> machine" where
  "call e s = s\<lparr>calls := calls s @ [e]\<rparr>"

subsection \<open>protocol\_check\_required\_reports and maybe\_reinit\_motors\<close>

definition protocol_check_required_reports :: "system_h \<Rightarrow> environment \<Rightarrow> machine \<Rightarrow> machine" where
  "protocol_check_required_reports c env s =
     (let s1 = (if sys_state s \<noteq> sys_old_state s
                then s\<lparr>sys_old_state := sys_state s,
                       SYS_EXEC := SYS_EXEC s OR EXEC_RUNTIME_REPORT c,
                       report_rqsts := report_rqsts s OR REQUEST_STATUS_REPORT c\<rparr>
                else s);
          s2 = s1\<lparr>sys_limit_state := LIMIT_PIN env AND LIMIT_MASK c\<rparr>;
          s3 = (if sys_limit_state s2 \<noteq> sys_old_limit_state s2
                then s2\<lparr>sys_old_limit_state := sys_limit_state s2,
                        SYS_EXEC := SYS_EXEC s2 OR EXEC_RUNTIME_REPORT c,
                        report_rqsts := report_rqsts s2 OR REQUEST_LIMIT_REPORT c\<rparr>
                else s2)
      in if ESTOP_PIN env AND ESTOP_MASK c \<noteq> sys_last_estop_state s3
         then s3\<lparr>sys_last_estop_state := ESTOP_PIN env AND ESTOP_MASK c,
                 SYS_EXEC := SYS_EXEC s3 OR EXEC_RUNTIME_REPORT c,
                 report_rqsts := report_rqsts s3 OR REQUEST_LIMIT_REPORT c\<rparr>
         else s3)"

definition maybe_reinit_motors :: "system_h \<Rightarrow> environment \<Rightarrow> machine \<Rightarrow> machine" where
  "maybe_reinit_motors c env s =
     (let estop_state = ESTOP_PIN env AND ESTOP_MASK c
      in if estop_state \<noteq> sys_last_estop_state s \<and> estop_state = 0
         then call Motor_drv_init s else s)"

subsection \<open>The branches of protocol\_execute\_runtime\<close>

text \<open>
  The critical-event lockout \<^verbatim>\<open>do { } while (bit_isfalse(SYS_EXEC,EXEC_RESET));\<close>
  The loop body is empty, so the flag word changes only by interrupts. \<open>lockout_wait\<close>
  takes the bits the interrupts set before each read and the flag word; it gives the flag
  word at the read that ends the loop, or \<open>None\<close> when no read ever finds the reset bit.
\<close>

fun lockout_wait :: "system_h \<Rightarrow> 8 word list \<Rightarrow> 8 word \<Rightarrow> 8 word option" where
  "lockout_wait c [] ex = (if ex AND EXEC_RESET c = 0 then None else Some ex)"
| "lockout_wait c (irq # irqs) ex =
     (if (ex OR irq) AND EXEC_RESET c = 0 then lockout_wait c irqs (ex OR irq)
      else Some (ex OR irq))"

text \<open>Lines 349 to 371: \<^verbatim>\<open>if (rt_exec & (EXEC_ALARM | EXEC_CRIT_EVENT)) { ... }\<close>\<close>

definition critical_event_lockout :: "system_h \<Rightarrow> environment \<Rightarrow> machine \<Rightarrow> halt + machine" where
  "critical_event_lockout c env s =
     (let s1 = call (Report_feedback_message MESSAGE_CRITICAL_EVENT) s;
          s2 = s1\<lparr>SYS_EXEC := SYS_EXEC s1 AND NOT (EXEC_RESET c)\<rparr>
      in case lockout_wait c (reset_irqs env) (SYS_EXEC s2) of
           None \<Rightarrow> Inl Never_returns
         | Some ex \<Rightarrow> Inr (s2\<lparr>SYS_EXEC := ex\<rparr>))"

definition exec_alarm :: "system_h \<Rightarrow> environment \<Rightarrow> 8 word \<Rightarrow> machine \<Rightarrow> halt + machine" where
  "exec_alarm c env rt_exec s =
     (let s1 = call (Report_alarm_message (sys_alarm s)) (s\<lparr>sys_state := STATE_ALARM c\<rparr>)
      in case (if rt_exec AND EXEC_CRIT_EVENT c \<noteq> 0 then critical_event_lockout c env s1
               else Inr s1) of
           Inl h \<Rightarrow> Inl h
         | Inr s2 \<Rightarrow>
             Inr (s2\<lparr>SYS_EXEC := SYS_EXEC s2 AND NOT (EXEC_ALARM c OR EXEC_CRIT_EVENT c),
                     sys_alarm := 0\<rparr>))"

text \<open>Lines 380 to 409: \<^verbatim>\<open>if (rt_exec & EXEC_RUNTIME_REPORT) { ... }\<close>\<close>

definition exec_runtime_report :: "system_h \<Rightarrow> environment \<Rightarrow> machine \<Rightarrow> machine" where
  "exec_runtime_report c env s =
     (let reports = report_rqsts s;
          s1 = s\<lparr>report_rqsts := 0\<rparr>;
          (s2, reports') =
            (if reports AND REQUEST_STATUS_REPORT c \<noteq> 0 then
               (call Report_realtime_status s1,
                if \<not> report_realtime_status env then reports AND NOT (REQUEST_STATUS_REPORT c)
                else reports)
             else if reports AND REQUEST_LIMIT_REPORT c \<noteq> 0 then
               (call Report_limit_pins s1, reports AND NOT (REQUEST_LIMIT_REPORT c))
             else if reports AND REQUEST_COUNTER_REPORT c \<noteq> 0 then
               (call Report_counters s1, reports AND NOT (REQUEST_COUNTER_REPORT c))
             else if reports AND REQUEST_VOLTAGE_REPORT c \<noteq> 0 then
               (call Report_voltage s1, reports AND NOT (REQUEST_VOLTAGE_REPORT c))
             else if reports AND REQUEST_EDGE_REPORT c \<noteq> 0 then
               (call Magazine_report_edge_events s1, reports AND NOT (REQUEST_EDGE_REPORT c))
             else (s1, reports));
          s3 = s2\<lparr>report_rqsts := report_rqsts s2 OR reports'\<rparr>
      in if report_rqsts s3 = 0
         then s3\<lparr>SYS_EXEC := SYS_EXEC s3 AND NOT (EXEC_RUNTIME_REPORT c)\<rparr>
         else s3)"

text \<open>Lines 412 to 422: \<^verbatim>\<open>if (rt_exec & EXEC_FEED_HOLD) { ... }\<close>\<close>

definition exec_feed_hold :: "system_h \<Rightarrow> machine \<Rightarrow> machine" where
  "exec_feed_hold c s =
     (let s1 = (if sys_state s = STATE_CYCLE c then
                  (let s' = call St_prep_buffer
                              (call St_update_plan_block_parameters
                                (s\<lparr>sys_state := STATE_HOLD c\<rparr>))
                   in s'\<lparr>sys_flags := sys_flags s' AND NOT (SYSFLAG_AUTOSTART c)\<rparr>)
                else s)
      in s1\<lparr>SYS_EXEC := SYS_EXEC s1 AND NOT (EXEC_FEED_HOLD c)\<rparr>)"

text \<open>
  Lines 426 to 437, the body of
  \<^verbatim>\<open>if ((rt_exec & EXEC_CYCLE_START) && !(sys.state & (STATE_HOMING | STATE_FORCESERVO | STATE_PROBING)))\<close>
\<close>

definition exec_cycle_start :: "system_h \<Rightarrow> machine \<Rightarrow> machine" where
  "exec_cycle_start c s =
     (if sys_state s = STATE_QUEUED c then
        (let s1 = call St_wake_up (call St_prep_buffer (s\<lparr>sys_state := STATE_CYCLE c\<rparr>))
         in if settings_flags s1 AND BITFLAG_AUTO_START c \<noteq> 0
            then s1\<lparr>sys_flags := sys_flags s1 OR SYSFLAG_AUTOSTART c\<rparr>
            else s1\<lparr>sys_flags := sys_flags s1 AND NOT (SYSFLAG_AUTOSTART c)\<rparr>)
      else s)"

text \<open>Lines 444 to 448: \<^verbatim>\<open>if (rt_exec & EXEC_CYCLE_STOP) { ... }\<close>\<close>

definition exec_cycle_stop :: "system_h \<Rightarrow> environment \<Rightarrow> machine \<Rightarrow> machine" where
  "exec_cycle_stop c env s =
     (let s1 = (if plan_get_current_block env then s\<lparr>sys_state := STATE_QUEUED c\<rparr>
                else s\<lparr>sys_state := STATE_IDLE c\<rparr>)
      in s1\<lparr>SYS_EXEC := SYS_EXEC s1 AND NOT (EXEC_CYCLE_STOP c)\<rparr>)"

text \<open>Lines 455 to 460: the reload of the segment buffer and the IO reset bit.\<close>

definition reload_and_clear_io_reset :: "system_h \<Rightarrow> machine \<Rightarrow> machine" where
  "reload_and_clear_io_reset c s =
     (let s1 = (if sys_state s AND (STATE_CYCLE c OR STATE_HOLD c OR STATE_HOMING c OR
                     STATE_FORCESERVO c OR STATE_PROBING c) \<noteq> 0
                then call St_prep_buffer s else s)
      in s1\<lparr>IO_RESET_PORT := IO_RESET_PORT s1 AND NOT (IO_RESET_MASK c)\<rparr>)"

text \<open>
  Lines 344 to 450, \<^verbatim>\<open>if (rt_exec) { ... }\<close>, after the alarm branch and for a
  snapshot without the reset bit: the report, feed-hold, cycle-start and cycle-stop
  branches in the order of the source.
\<close>

definition exec_flags :: "system_h \<Rightarrow> environment \<Rightarrow> 8 word \<Rightarrow> machine \<Rightarrow> machine" where
  "exec_flags c env rt_exec s =
     (let s1 = (if rt_exec AND EXEC_RUNTIME_REPORT c \<noteq> 0 then exec_runtime_report c env s else s);
          s2 = (if rt_exec AND EXEC_FEED_HOLD c \<noteq> 0 then exec_feed_hold c s1 else s1);
          s3 = (if rt_exec AND EXEC_CYCLE_START c \<noteq> 0 \<and>
                   sys_state s2 AND (STATE_HOMING c OR STATE_FORCESERVO c OR STATE_PROBING c) = 0
                then exec_cycle_start c s2 else s2)
      in if rt_exec AND EXEC_CYCLE_STOP c \<noteq> 0 then exec_cycle_stop c env s3 else s3)"

subsection \<open>protocol\_execute\_runtime\<close>

text \<open>
  The part of the pass before the flag word is looked at (lines 324 to 341); the snapshot
  \<^verbatim>\<open>rt_exec\<close> has been taken before it.
\<close>

definition pass_prologue :: "system_h \<Rightarrow> environment \<Rightarrow> machine \<Rightarrow> halt + machine" where
  "pass_prologue c env s =
     (case systick_service_callbacks (callback_body env) (systick s) of
        Inl h \<Rightarrow> Inl h
      | Inr t \<Rightarrow>
          (let s1 = s\<lparr>systick := t\<rparr>;
               s2 = (if settings_spi_motor_drivers s1 then maybe_reinit_motors c env s1 else s1);
               s3 = protocol_check_required_reports c env s2;
               s4 = call St_check_disable s3
           in Inr (if sys_state s4 = STATE_IDLE c \<and> linenumber_peek env
                   then call Request_eol_report s4 else s4)))"

definition protocol_execute_runtime :: "system_h \<Rightarrow> environment \<Rightarrow> machine \<Rightarrow> halt + machine" where
  "protocol_execute_runtime c env s =
     (let rt_exec = SYS_EXEC s
      in case pass_prologue c env s of
           Inl h \<Rightarrow> Inl h
         | Inr s1 \<Rightarrow>
             if rt_exec \<noteq> 0 then
               (case (if rt_exec AND (EXEC_ALARM c OR EXEC_CRIT_EVENT c) \<noteq> 0
                      then exec_alarm c env rt_exec s1 else Inr s1) of
                  Inl h \<Rightarrow> Inl h
                | Inr s2 \<Rightarrow>
                    if rt_exec AND EXEC_RESET c \<noteq> 0 then Inr (s2\<lparr>sys_abort := True\<rparr>)
                    else Inr (reload_and_clear_io_reset c (exec_flags c env rt_exec s2)))
             else Inr (reload_and_clear_io_reset c s1))"

subsection \<open>protocol\_buffer\_synchronize and protocol\_auto\_cycle\_start\<close>

text \<open>
  Each turn of the loop takes one element of the list: what \<^verbatim>\<open>plan_get_current_block()\<close>
  returns in the loop test, the bits that interrupt handlers have set in the flag word
  since the turn before (the stepper interrupt raises cycle stop, the serial interrupt
  raises reset), and the environment of the dispatcher pass of that turn. \<open>None\<close>: the
  list is used up and the function is still waiting. The result carries what the loop
  test read from the planner when it ended the wait, and \<open>None\<close> there when the function
  returned from inside the loop, on abort.
\<close>

fun synchronize_loop ::
  "system_h \<Rightarrow> (bool \<times> 8 word \<times> environment) list \<Rightarrow> machine \<Rightarrow>
   (halt + bool option \<times> machine) option" where
  "synchronize_loop c [] s = None"
| "synchronize_loop c ((current_block, irq, env) # envs) s =
     (if current_block \<or> sys_state s = STATE_CYCLE c then
        (case protocol_execute_runtime c env (s\<lparr>SYS_EXEC := SYS_EXEC s OR irq\<rparr>) of
           Inl h \<Rightarrow> Some (Inl h)
         | Inr s' \<Rightarrow> if sys_abort s' then Some (Inr (None, s')) else synchronize_loop c envs s')
      else Some (Inr (Some current_block, s)))"

definition protocol_buffer_synchronize ::
  "system_h \<Rightarrow> (bool \<times> 8 word \<times> environment) list \<Rightarrow> machine \<Rightarrow>
   (halt + bool option \<times> machine) option" where
  "protocol_buffer_synchronize c envs s =
     synchronize_loop c envs
       (if sys_state s = STATE_CYCLE c then s\<lparr>sys_flags := sys_flags s OR SYSFLAG_AUTOSTART c\<rparr>
        else s)"

definition protocol_auto_cycle_start :: "system_h \<Rightarrow> machine \<Rightarrow> machine" where
  "protocol_auto_cycle_start c s =
     (if sys_flags s AND SYSFLAG_AUTOSTART c \<noteq> 0
      then s\<lparr>SYS_EXEC := SYS_EXEC s OR EXEC_CYCLE_START c\<rparr> else s)"

section \<open>Example inputs\<close>

text \<open>A callback body that leaves the scheduler alone.\<close>

definition no_effect :: "fnptr \<Rightarrow> systick_t \<Rightarrow> halt + systick_t" where
  "no_effect f s = Inr s"

fun register_times :: "nat \<Rightarrow> 32 word \<Rightarrow> fnptr \<Rightarrow> systick_t \<Rightarrow> halt + systick_t" where
  "register_times 0 ms_later func s = Inr s"
| "register_times (Suc n) ms_later func s =
     (case systick_register_callback ms_later func s of
        Inl h \<Rightarrow> Inl h
      | Inr s' \<Rightarrow> register_times n ms_later func s')"

definition empty_slot :: callback_t where
  "empty_slot = \<lparr>callback_time = 0, cb_function = 0\<rparr>"

definition full_table :: systick_t where
  "full_table =
     \<lparr>SysTick = 0,
      systick_callbacks_array = replicate 32 \<lparr>callback_time = 1, cb_function = 0x100\<rparr>,
      systick_len = 32, invoked = []\<rparr>"

definition one_pending :: systick_t where
  "one_pending =
     \<lparr>SysTick = 0,
      systick_callbacks_array =
        \<lparr>callback_time = 10, cb_function = 0x100\<rparr> # replicate 31 empty_slot,
      systick_len = 1, invoked = []\<rparr>"

definition two_pending :: systick_t where
  "two_pending =
     \<lparr>SysTick = 0,
      systick_callbacks_array =
        \<lparr>callback_time = 5, cb_function = 0x200\<rparr> #
        \<lparr>callback_time = 3, cb_function = 0x100\<rparr> # replicate 30 empty_slot,
      systick_len = 2, invoked = []\<rparr>"

definition first_of_two :: systick_t where
  "first_of_two =
     \<lparr>SysTick = 0,
      systick_callbacks_array =
        \<lparr>callback_time = 5, cb_function = 0x100\<rparr> # replicate 31 empty_slot,
      systick_len = 1, invoked = []\<rparr>"

definition one_then_two :: systick_t where
  "one_then_two =
     \<lparr>SysTick = 0,
      systick_callbacks_array =
        \<lparr>callback_time = 10, cb_function = 0x200\<rparr> #
        \<lparr>callback_time = 5, cb_function = 0x100\<rparr> # replicate 30 empty_slot,
      systick_len = 2, invoked = []\<rparr>"

text \<open>
  A scheduler with nothing to fire (entry 0 has time 0 and the tick counter is at 1), an
  environment in which nothing happens, and machine states built on them. The numbers
  are those of \<open>example_system_h\<close>: flag bits 2 cycle start, 4 cycle stop, 8 feed hold,
  16 reset, 32 alarm, 64 critical event; states 0 idle, 1 alarm, 8 queued, 16 cycle,
  32 hold.
\<close>

definition quiet_systick :: systick_t where
  "quiet_systick = systick_reset_state\<lparr>SysTick := 1\<rparr>"

definition quiet_env :: environment where
  "quiet_env =
     \<lparr>callback_body = no_effect, LIMIT_PIN = 0, ESTOP_PIN = 0, linenumber_peek = False,
      report_realtime_status = False, plan_get_current_block = False, reset_irqs = []\<rparr>"

definition block_pending_env :: environment where
  "block_pending_env = quiet_env\<lparr>plan_get_current_block := True\<rparr>"

definition idle_machine :: machine where
  "idle_machine =
     \<lparr>SYS_EXEC = 0, report_rqsts = 0, sys_state = 0, sys_old_state = 0, sys_abort = False,
      sys_alarm = 0, sys_flags = 0, sys_limit_state = 0, sys_old_limit_state = 0,
      sys_last_estop_state = 0, settings_spi_motor_drivers = False, settings_flags = 0,
      IO_RESET_PORT = 0, systick = quiet_systick, calls = []\<rparr>"

text \<open>A cycle start requested while blocks are queued, and the three passes that follow.\<close>

definition start_in_queued :: machine where
  "start_in_queued = idle_machine\<lparr>SYS_EXEC := 2, sys_state := 8, sys_old_state := 8\<rparr>"

definition started :: machine where
  "started = start_in_queued
     \<lparr>sys_state := 16,
      calls := [St_check_disable, St_prep_buffer, St_wake_up, St_prep_buffer]\<rparr>"

definition stopped :: machine where
  "stopped = started
     \<lparr>SYS_EXEC := 3, report_rqsts := 1, sys_state := 8, sys_old_state := 16,
      calls := calls started @ [St_check_disable]\<rparr>"

definition restarted :: machine where
  "restarted = stopped
     \<lparr>SYS_EXEC := 2, report_rqsts := 0, sys_state := 16, sys_old_state := 8,
      calls := calls stopped @
        [St_check_disable, Report_realtime_status, St_prep_buffer, St_wake_up, St_prep_buffer]\<rparr>"

text \<open>Feed hold requests: in a cycle, with and without a reset, and outside a cycle.\<close>

definition hold_in_cycle :: machine where
  "hold_in_cycle =
     idle_machine\<lparr>SYS_EXEC := 8, sys_state := 16, sys_old_state := 16, sys_flags := 1\<rparr>"

definition hold_and_reset_in_cycle :: machine where
  "hold_and_reset_in_cycle =
     idle_machine\<lparr>SYS_EXEC := 24, sys_state := 16, sys_old_state := 16, sys_flags := 1\<rparr>"



text \<open>Reset requests: with a cycle start, with an alarm, with a critical event.\<close>

definition reset_and_start_in_queued :: machine where
  "reset_and_start_in_queued =
     idle_machine\<lparr>SYS_EXEC := 18, sys_state := 8, sys_old_state := 8\<rparr>"

definition reset_and_alarm :: machine where
  "reset_and_alarm = idle_machine\<lparr>SYS_EXEC := 48, sys_alarm := 1\<rparr>"

definition reset_and_critical_event :: machine where
  "reset_and_critical_event = idle_machine\<lparr>SYS_EXEC := 80, sys_alarm := 1\<rparr>"


definition reset_arrives_env :: environment where
  "reset_arrives_env = quiet_env\<lparr>reset_irqs := [8, 16]\<rparr>"

text \<open>A cycle under way, with no flag pending.\<close>

definition cycle_running :: machine where
  "cycle_running = idle_machine\<lparr>sys_state := 16, sys_old_state := 16\<rparr>"

text \<open>The states in which the passes below leave these machines.\<close>

definition held :: machine where
  "held = hold_in_cycle
     \<lparr>SYS_EXEC := 0, sys_state := 32, sys_flags := 0,
      calls := [St_check_disable, St_update_plan_block_parameters, St_prep_buffer, St_prep_buffer]\<rparr>"

definition aborted_in_cycle :: machine where
  "aborted_in_cycle = hold_and_reset_in_cycle\<lparr>sys_abort := True, calls := [St_check_disable]\<rparr>"



definition aborted_in_queued :: machine where
  "aborted_in_queued =
     reset_and_start_in_queued\<lparr>sys_abort := True, calls := [St_check_disable]\<rparr>"

definition alarm_then_aborted :: machine where
  "alarm_then_aborted =
     reset_and_alarm\<lparr>SYS_EXEC := 16, sys_state := 1, sys_alarm := 0, sys_abort := True,
       calls := [St_check_disable, Report_alarm_message 1]\<rparr>"


definition drained :: machine where
  "drained = cycle_running
     \<lparr>sys_state := 0, sys_flags := 1,
      calls := [St_check_disable, St_prep_buffer, St_check_disable]\<rparr>"

definition still_running :: machine where
  "still_running = cycle_running\<lparr>sys_flags := 1, calls := [St_check_disable, St_prep_buffer]\<rparr>"

definition aborted_waiting :: machine where
  "aborted_waiting = still_running
     \<lparr>SYS_EXEC := 16, sys_abort := True,
      calls := [St_check_disable, St_prep_buffer, St_check_disable]\<rparr>"

definition lockout_then_aborted :: machine where
  "lockout_then_aborted =
     reset_and_critical_event\<lparr>SYS_EXEC := 24, sys_state := 1, sys_alarm := 0, sys_abort := True,
       calls := [St_check_disable, Report_alarm_message 1,
                 Report_feedback_message MESSAGE_CRITICAL_EVENT]\<rparr>"


section \<open>Notions used in the proofs\<close>

text \<open>The flag word with the feed-hold bit taken out.\<close>

definition clear_feed_hold :: "system_h \<Rightarrow> machine \<Rightarrow> machine" where
  "clear_feed_hold c s = s\<lparr>SYS_EXEC := SYS_EXEC s AND NOT (EXEC_FEED_HOLD c)\<rparr>"

text \<open>The first and the last statements of the alarm branch.\<close>

definition alarm_begin :: "system_h \<Rightarrow> machine \<Rightarrow> machine" where
  "alarm_begin c s = call (Report_alarm_message (sys_alarm s)) (s\<lparr>sys_state := STATE_ALARM c\<rparr>)"

definition alarm_done :: "system_h \<Rightarrow> machine \<Rightarrow> machine" where
  "alarm_done c s =
     s\<lparr>SYS_EXEC := SYS_EXEC s AND NOT (EXEC_ALARM c OR EXEC_CRIT_EVENT c), sys_alarm := 0\<rparr>"

text \<open>
  The state in which \<^verbatim>\<open>protocol_buffer_synchronize\<close> enters its loop, and the state
  in which it is still waiting after the given turns: each of them had a loop test that
  held (a planner block, or the state Cycle) and a dispatcher pass that returned without
  abort. \<open>None\<close>: the function is not waiting any more after these turns, or never got
  through them.
\<close>

definition synchronize_entry :: "system_h \<Rightarrow> machine \<Rightarrow> machine" where
  "synchronize_entry c s =
     (if sys_state s = STATE_CYCLE c then s\<lparr>sys_flags := sys_flags s OR SYSFLAG_AUTOSTART c\<rparr>
      else s)"

fun turns_passed ::
  "system_h \<Rightarrow> (bool \<times> 8 word \<times> environment) list \<Rightarrow> machine \<Rightarrow> machine option" where
  "turns_passed c [] s = Some s"
| "turns_passed c ((current_block, irq, env) # turns) s =
     (if current_block \<or> sys_state s = STATE_CYCLE c then
        (case protocol_execute_runtime c env (s\<lparr>SYS_EXEC := SYS_EXEC s OR irq\<rparr>) of
           Inl h \<Rightarrow> None
         | Inr s' \<Rightarrow> if sys_abort s' then None else turns_passed c turns s')
      else None)"

text \<open>From \<open>s\<close> to \<open>s'\<close> the collaborators were called with events of \<open>A\<close> only.\<close>

definition emits :: "event set \<Rightarrow> machine \<Rightarrow> machine \<Rightarrow> bool" where
  "emits A s s' = (\<exists>evs. calls s' = calls s @ evs \<and> set evs \<subseteq> A)"

section \<open>The scheduler: the array as bytes\<close>

lemma le_bytes_Suc: "le_bytes (Suc k) w = ucast w # le_bytes k (drop_bit 8 w)"
proof -
  have "[0..<Suc k] = 0 # map Suc [0..<k]"
    by (simp add: upt_conv_Cons map_Suc_upt del: upt_Suc)
  then show ?thesis
    by (simp add: le_bytes_def comp_def add.commute del: upt_Suc)
qed

lemma le_word_Cons: "le_word (b # bs) = ucast b OR push_bit 8 (le_word bs)"
  by (simp add: le_word_def)

lemma le_word_le_bytes:
  "(le_word (le_bytes k w) :: 'a::len word) = take_bit (8 * k) (w :: 'a word)"
proof (induction k arbitrary: w)
  case 0
  show ?case by (simp add: le_bytes_def le_word_def)
next
  case (Suc k)
  have "(ucast (ucast w :: byte) :: 'a word) OR push_bit 8 (take_bit (8 * k) (drop_bit 8 w))
        = take_bit (8 * Suc k) w"
    by (rule bit_word_eqI) (auto simp: bit_simps)
  with Suc show ?case
    by (simp add: le_bytes_Suc le_word_Cons)
qed

lemma length_le_bytes: "length (le_bytes k w) = k"
  by (simp add: le_bytes_def)

lemma length_callback_bytes: "length (callback_bytes e) = sizeof_callback_t"
  by (simp add: callback_bytes_def length_le_bytes sizeof_callback_t_def)

lemma callback_roundtrip: "callback_of_bytes (callback_bytes e) = e"
  by (simp add: callback_of_bytes_def callback_bytes_def length_le_bytes le_word_le_bytes
      take_bit_word_eq_self)

lemma length_array_bytes: "length (array_bytes es) = sizeof_callback_t * length es"
  by (induction es) (simp_all add: array_bytes_def length_callback_bytes)

lemma drop_array_bytes:
  "i \<le> length es \<Longrightarrow> drop (sizeof_callback_t * i) (array_bytes es) = array_bytes (drop i es)"
proof (induction es arbitrary: i)
  case Nil
  then show ?case by (simp add: array_bytes_def)
next
  case (Cons e es)
  show ?case
  proof (cases i)
    case 0
    then show ?thesis by simp
  next
    case (Suc j)
    with Cons.prems have "j \<le> length es" by simp
    from Cons.IH [OF this] Suc show ?thesis
      by (simp add: array_bytes_def length_callback_bytes)
  qed
qed

lemma entry_bytes:
  assumes "i < length es"
  shows "take sizeof_callback_t (drop (sizeof_callback_t * i) (array_bytes es)) =
         callback_bytes (es ! i)"
proof -
  from assms obtain e rest where d: "drop i es = e # rest" and e: "e = es ! i"
    by (metis Cons_nth_drop_Suc)
  from assms have "drop (sizeof_callback_t * i) (array_bytes es) = array_bytes (drop i es)"
    by (simp add: drop_array_bytes)
  with d e show ?thesis
    by (simp add: array_bytes_def length_callback_bytes)
qed

text \<open>
  A \<^verbatim>\<open>memmove\<close> of at most one entry's worth of bytes from entry 1 to entry 0 changes
  entry 0 only: its first \<open>n\<close> bytes become those of entry 1, the others stay.
\<close>

lemma memmove_few_bytes:
  assumes len: "2 \<le> length es" and n: "n \<le> sizeof_callback_t"
  shows "map_sum id (array_of_bytes (length es)) (memmove (array_bytes es) 0 sizeof_callback_t n) =
         Inr (es[0 := callback_of_bytes
                (take n (callback_bytes (es ! 1)) @ drop n (callback_bytes (es ! 0)))])"
proof -
  define m where "m = array_bytes es"
  define R where "R = take n (drop sizeof_callback_t m) @ drop n m"
  have lm: "length m = sizeof_callback_t * length es"
    by (simp add: m_def length_array_bytes)
  have sz: "sizeof_callback_t = 10" by (simp add: sizeof_callback_t_def)
  from len n lm have fits: "sizeof_callback_t + n \<le> length m"
    by (simp add: sz)
  then have mm: "memmove m 0 sizeof_callback_t n = Inr R"
    by (simp add: memmove_def R_def)
  have e0: "take sizeof_callback_t m = callback_bytes (es ! 0)"
    using entry_bytes [of 0 es] len by (cases es) (simp_all add: m_def)
  have e1: "take sizeof_callback_t (drop sizeof_callback_t m) = callback_bytes (es ! 1)"
    using entry_bytes [of 1 es] len by (simp add: m_def)
  have lA: "length (take n (drop sizeof_callback_t m)) = n"
    using fits by simp
  have A: "take n (drop sizeof_callback_t m) = take n (callback_bytes (es ! 1))"
  proof -
    from n have "take n (drop sizeof_callback_t m) =
        take n (take sizeof_callback_t (drop sizeof_callback_t m))"
      by (simp add: min_def)
    also have "\<dots> = take n (callback_bytes (es ! 1))"
      by (simp only: e1)
    finally show ?thesis .
  qed
  have B: "take (sizeof_callback_t - n) (drop n m) = drop n (callback_bytes (es ! 0))"
  proof -
    have "take (sizeof_callback_t - n) (drop n m) = drop n (take sizeof_callback_t m)"
      by (simp add: drop_take)
    also have "\<dots> = drop n (callback_bytes (es ! 0))"
      by (simp only: e0)
    finally show ?thesis .
  qed
  have head: "take sizeof_callback_t R =
      take n (callback_bytes (es ! 1)) @ drop n (callback_bytes (es ! 0))"
  proof -
    define front where "front = take n (drop sizeof_callback_t m)"
    have "length front = n"
      using lA by (simp only: front_def)
    with n have "take sizeof_callback_t (front @ drop n m) =
        front @ take (sizeof_callback_t - n) (drop n m)"
      by simp
    then show ?thesis by (simp only: front_def R_def A B)
  qed
  have rest: "take sizeof_callback_t (drop (sizeof_callback_t * i) R) = callback_bytes (es ! i)"
    if "0 < i" "i < length es" for i
  proof -
    from that n have "n \<le> sizeof_callback_t * i" by (simp add: sz)
    then have "drop (sizeof_callback_t * i) R = drop (sizeof_callback_t * i) m"
      using lA by (simp add: R_def)
    with that show ?thesis
      using entry_bytes [of i es] by (simp add: m_def)
  qed
  let ?es' = "es[0 := callback_of_bytes
                (take n (callback_bytes (es ! 1)) @ drop n (callback_bytes (es ! 0)))]"
  have "array_of_bytes (length es) R = ?es'"
  proof (rule nth_equalityI)
    show "length (array_of_bytes (length es) R) = length ?es'"
      by (simp add: array_of_bytes_def)
  next
    fix i assume "i < length (array_of_bytes (length es) R)"
    then have i: "i < length es" by (simp add: array_of_bytes_def)
    show "array_of_bytes (length es) R ! i = ?es' ! i"
    proof (cases "i = 0")
      case True
      with i head show ?thesis by (simp add: array_of_bytes_def)
    next
      case False
      with i rest [of i] show ?thesis
        by (simp add: array_of_bytes_def callback_roundtrip)
    qed
  qed
  with mm show ?thesis by (simp add: m_def)
qed

lemma size_t_of_len:
  assumes "systick_len s \<noteq> 0"
  shows "size_t_of_int (uint (systick_len s) - 1) = unat (systick_len s) - 1"
proof -
  define k where "k = unat (systick_len s)"
  have u: "uint (systick_len s) = int k"
    by (simp add: k_def)
  from assms have "0 < k"
    by (simp add: k_def unat_gt_0)
  moreover have "k < 256"
    using unsigned_less [of "systick_len s", where ?'a = nat] by (simp add: k_def)
  ultimately have "(int k - 1) mod 65536 = int k - 1"
    by simp
  then show ?thesis
    by (simp add: size_t_of_int_def u flip: k_def)
qed

text \<open>
  What \<open>systick_service_callbacks\<close> does when the entry at index 0 passes its test, the
  table holds between 1 and 11 entries and the callback leaves the scheduler alone: the
  length goes down by one, and of the array only the first \<open>systick_len - 1\<close> bytes of
  entry 0 change.
\<close>

lemma service_due_few:
  assumes arr: "length (systick_callbacks_array s) = MAX_CALLBACKS"
    and len: "systick_len s \<noteq> 0" "unat (systick_len s) \<le> 11"
    and due: "SysTick s \<le> callback_time (systick_callbacks_array s ! 0)"
    and run: "run (cb_function (systick_callbacks_array s ! 0))
                (s\<lparr>invoked := invoked s @ [cb_function (systick_callbacks_array s ! 0)]\<rparr>) =
              Inr (s\<lparr>invoked := invoked s @ [cb_function (systick_callbacks_array s ! 0)]\<rparr>)"
  shows "systick_service_callbacks run s =
         Inr (s\<lparr>invoked := invoked s @ [cb_function (systick_callbacks_array s ! 0)],
                 systick_callbacks_array := (systick_callbacks_array s)
                   [0 := callback_of_bytes
                      (take (unat (systick_len s) - 1)
                         (callback_bytes (systick_callbacks_array s ! 1)) @
                       drop (unat (systick_len s) - 1)
                         (callback_bytes (systick_callbacks_array s ! 0)))],
                 systick_len := systick_len s - 1\<rparr>)"
proof -
  let ?es = "systick_callbacks_array s"
  let ?n = "unat (systick_len s) - 1"
  from len have n: "?n \<le> sizeof_callback_t" by (simp add: sizeof_callback_t_def)
  from arr have l2: "2 \<le> length ?es" by (simp add: MAX_CALLBACKS_def)
  from memmove_few_bytes [OF l2 n]
  obtain m where m: "memmove (array_bytes ?es) 0 sizeof_callback_t ?n = Inr m"
    and a: "array_of_bytes (length ?es) m =
      ?es[0 := callback_of_bytes
            (take ?n (callback_bytes (?es ! 1)) @ drop ?n (callback_bytes (?es ! 0)))]"
    by (cases "memmove (array_bytes ?es) 0 sizeof_callback_t ?n") auto
  from due run m a arr len(1) show ?thesis
    by (simp add: systick_service_callbacks_def size_t_of_len)
qed

section \<open>The scheduler: when an entry fires\<close>

lemma one_pending_registered:
  "systick_register_callback 10 0x100 systick_reset_state = Inr one_pending"
  by code_simp

lemma service_one_pending:
  "systick_service_callbacks no_effect one_pending =
     Inr (one_pending\<lparr>invoked := [0x100], systick_len := 0\<rparr>)"
proof -
  have "systick_service_callbacks no_effect one_pending =
      Inr (one_pending\<lparr>invoked := invoked one_pending @
                   [cb_function (systick_callbacks_array one_pending ! 0)],
                 systick_callbacks_array := (systick_callbacks_array one_pending)
                   [0 := callback_of_bytes
                      (take (unat (systick_len one_pending) - 1)
                         (callback_bytes (systick_callbacks_array one_pending ! 1)) @
                       drop (unat (systick_len one_pending) - 1)
                         (callback_bytes (systick_callbacks_array one_pending ! 0)))],
                 systick_len := systick_len one_pending - 1\<rparr>)"
    by (rule service_due_few) (simp_all add: one_pending_def MAX_CALLBACKS_def no_effect_def)
  then show ?thesis
    by (simp add: one_pending_def callback_roundtrip)
qed

text \<open>
  Claim C2: \<open>systick_service_callbacks\<close> never invokes an entry's action before its stored
  fire tick has arrived; an entry is fired only when the current tick has reached or
  passed its \<open>callback_time\<close>.

  The source tests \<^verbatim>\<open>callback_time >= SysTick\<close>, the reverse of the claim. Run on the
  code: at tick 0 a callback is registered 10 ms ahead; the next service call, still at
  tick 0, invokes it; and had the tick counter reached 11 with the entry still in the
  table, the service call would leave it alone.
\<close>

theorem service_fires_before_fire_tick:
  "systick_register_callback 10 0x100 systick_reset_state = Inr one_pending \<and>
   SysTick one_pending < callback_time (systick_callbacks_array one_pending ! 0) \<and>
   map_sum id invoked (systick_service_callbacks no_effect one_pending) = Inr [0x100] \<and>
   systick_service_callbacks no_effect (one_pending\<lparr>SysTick := 11\<rparr>) =
     Inr (one_pending\<lparr>SysTick := 11\<rparr>)"
proof -
  have "SysTick one_pending < callback_time (systick_callbacks_array one_pending ! 0)"
    by (simp add: one_pending_def)
  moreover have "systick_service_callbacks no_effect (one_pending\<lparr>SysTick := 11\<rparr>) =
     Inr (one_pending\<lparr>SysTick := 11\<rparr>)"
    by (simp add: systick_service_callbacks_def one_pending_def)
  ultimately show ?thesis
    by (simp add: one_pending_registered service_one_pending)
qed

section \<open>The scheduler: the order of the table\<close>

lemma set_qsort_insert: "set (qsort_insert c x xs) = insert x (set xs)"
  by (induction xs) auto

lemma length_qsort_insert: "length (qsort_insert c x xs) = Suc (length xs)"
  by (induction xs) auto

lemma length_qsort: "length (qsort c xs) = length xs"
  by (induction xs) (simp_all add: qsort_def length_qsort_insert)

lemma cmp_le_0: "cmp a b \<le> 0 \<longleftrightarrow> callback_time b \<le> callback_time a"
  by (auto simp: cmp_def)

lemma sorted_qsort_insert:
  assumes "sorted_wrt (\<lambda>a b. callback_time b \<le> callback_time a) xs"
  shows "sorted_wrt (\<lambda>a b. callback_time b \<le> callback_time a) (qsort_insert cmp x xs)"
  using assms
proof (induction xs)
  case Nil
  show ?case by simp
next
  case (Cons y ys)
  show ?case
  proof (cases "cmp x y \<le> 0")
    case True
    then have "callback_time y \<le> callback_time x" by (simp add: cmp_le_0)
    with Cons.prems True show ?thesis by (auto intro: order_trans)
  next
    case False
    then have "callback_time x \<le> callback_time y" by (simp add: cmp_le_0)
    with Cons False show ?thesis by (auto simp: set_qsort_insert)
  qed
qed

lemma sorted_qsort: "sorted_wrt (\<lambda>a b. callback_time b \<le> callback_time a) (qsort cmp xs)"
  by (induction xs) (simp_all add: qsort_def sorted_qsort_insert)

lemma one_then_two_registered:
  "systick_register_callback 10 0x200 first_of_two = Inr one_then_two"
  by code_simp

text \<open>
  Claim C3: after every call to \<open>systick_register_callback\<close> the callback collection is
  sorted in ascending order of fire tick, the smallest fire tick at index 0 (ties in
  insertion order).

  \<open>cmp\<close> returns 1 when the first entry is the earlier one, so \<^verbatim>\<open>qsort\<close> puts the
  earlier entry behind the later one. What holds: after every call that returns, the
  \<open>systick_len\<close> entries in use are in descending order of \<open>callback_time\<close>, the largest
  at index 0.
\<close>

theorem register_sorts_descending:
  assumes arr: "length (systick_callbacks_array s) = MAX_CALLBACKS"
    and reg: "systick_register_callback ms_later func s = Inr s'"
  shows "sorted_wrt (\<lambda>a b. callback_time b \<le> callback_time a)
           (take (unat (systick_len s')) (systick_callbacks_array s'))"
proof -
  from reg have room: "unat (systick_len s) < MAX_CALLBACKS"
    by (auto simp: systick_register_callback_def split: if_splits)
  have "systick_len s + 1 \<noteq> 0"
  proof
    assume "systick_len s + 1 = 0"
    then have "unat (systick_len s + 1) = 0" by simp
    with room show False
      by (simp add: MAX_CALLBACKS_def unat_word_ariths)
  qed
  then have n: "unat (systick_len s + 1) = Suc (unat (systick_len s))"
    by (simp add: unatSuc add.commute)
  let ?ins = "(systick_callbacks_array s)
      [unat (systick_len s) := \<lparr>callback_time = SysTick s + ucast ms_later, cb_function = func\<rparr>]"
  from reg room have s': "systick_callbacks_array s' =
      qsort cmp (take (Suc (unat (systick_len s))) ?ins) @ drop (Suc (unat (systick_len s))) ?ins"
    and l': "systick_len s' = systick_len s + 1"
    by (auto simp: systick_register_callback_def systick_sort_callback_array_def n)
  from arr room have "length (qsort cmp (take (Suc (unat (systick_len s))) ?ins)) =
      Suc (unat (systick_len s))"
    by (simp add: length_qsort)
  then have "take (unat (systick_len s')) (systick_callbacks_array s') =
      qsort cmp (take (Suc (unat (systick_len s))) ?ins)"
    by (simp add: s' l' n)
  then show ?thesis by (simp add: sorted_qsort)
qed

theorem register_sorts_descending_witness:
  "length (systick_callbacks_array first_of_two) = MAX_CALLBACKS \<and>
   systick_register_callback 10 0x200 first_of_two = Inr one_then_two \<and>
   sorted_wrt (\<lambda>a b. callback_time b \<le> callback_time a)
     (take (unat (systick_len one_then_two)) (systick_callbacks_array one_then_two)) \<and>
   take (unat (systick_len one_then_two)) (systick_callbacks_array one_then_two) =
     [\<lparr>callback_time = 10, cb_function = 0x200\<rparr>, \<lparr>callback_time = 5, cb_function = 0x100\<rparr>]"
proof -
  have a: "length (systick_callbacks_array first_of_two) = MAX_CALLBACKS"
    by (simp add: first_of_two_def MAX_CALLBACKS_def)
  have "take (unat (systick_len one_then_two)) (systick_callbacks_array one_then_two) =
     [\<lparr>callback_time = 10, cb_function = 0x200\<rparr>, \<lparr>callback_time = 5, cb_function = 0x100\<rparr>]"
    by (simp add: one_then_two_def)
  with a one_then_two_registered register_sorts_descending [OF a one_then_two_registered]
  show ?thesis by simp
qed

section \<open>The scheduler: removing the fired entry\<close>

lemma two_pending_registered:
  "(case systick_register_callback 3 0x100 systick_reset_state of
      Inl h \<Rightarrow> Inl h
    | Inr s \<Rightarrow> systick_register_callback 5 0x200 s) = Inr two_pending"
  by code_simp

lemma mixed_entry:
  "callback_of_bytes
     (take (Suc 0) (callback_bytes \<lparr>callback_time = 3, cb_function = 0x100\<rparr>) @
      drop (Suc 0) (callback_bytes \<lparr>callback_time = 5, cb_function = 0x200\<rparr>)) =
   \<lparr>callback_time = 3, cb_function = 0x200\<rparr>"
  by code_simp

text \<open>
  Claim C4: each call to \<open>systick_service_callbacks\<close> services at most one entry; when
  the earliest entry is due its action is invoked exactly once and that entry alone is
  removed, the remaining entries and their (fire tick, action) pairs surviving unchanged
  with the length decreased by one.

  The source shifts with \<^verbatim>\<open>memmove(&a[0], &a[1], systick_len - 1)\<close>: a count of
  bytes where \<^verbatim>\<open>(systick_len - 1) * sizeof(callback_t)\<close> is needed. Run on the code:
  callbacks \<open>0x100\<close> (3 ms) and \<open>0x200\<close> (5 ms) are registered at tick 0; the service call
  invokes \<open>0x200\<close> once and the length becomes 1, but one byte is copied, so the entry left
  at index 0 is \<open>(3, 0x200)\<close>: the action just fired with the other entry's time, and
  \<open>0x100\<close> is no longer among the entries in use.
\<close>

theorem service_leaves_fired_action_in_table:
  "(case systick_register_callback 3 0x100 systick_reset_state of
      Inl h \<Rightarrow> Inl h
    | Inr s \<Rightarrow> systick_register_callback 5 0x200 s) = Inr two_pending \<and>
   systick_service_callbacks no_effect two_pending =
     Inr (two_pending\<lparr>invoked := [0x200],
            systick_callbacks_array :=
              \<lparr>callback_time = 3, cb_function = 0x200\<rparr> #
              \<lparr>callback_time = 3, cb_function = 0x100\<rparr> # replicate 30 empty_slot,
            systick_len := 1\<rparr>)"
proof -
  have "systick_service_callbacks no_effect two_pending =
      Inr (two_pending\<lparr>invoked := invoked two_pending @
                   [cb_function (systick_callbacks_array two_pending ! 0)],
                 systick_callbacks_array := (systick_callbacks_array two_pending)
                   [0 := callback_of_bytes
                      (take (unat (systick_len two_pending) - 1)
                         (callback_bytes (systick_callbacks_array two_pending ! 1)) @
                       drop (unat (systick_len two_pending) - 1)
                         (callback_bytes (systick_callbacks_array two_pending ! 0)))],
                 systick_len := systick_len two_pending - 1\<rparr>)"
    by (rule service_due_few) (simp_all add: two_pending_def MAX_CALLBACKS_def no_effect_def)
  then show ?thesis
    by (simp add: two_pending_registered) (simp add: two_pending_def mixed_entry)
qed

section \<open>The scheduler: a full table\<close>

lemma full_table_reached: "register_times 32 1 0x100 systick_reset_state = Inr full_table"
  by code_simp

text \<open>
  Claim C5: when \<open>systick_register_callback\<close> is called while the collection already
  holds \<open>MAX_CALLBACKS = 32\<close> entries, the call fails with a surfaced capacity error and
  neither drops the request silently nor writes outside the collection.

  The source has no test of \<open>systick_len\<close> against \<open>MAX_CALLBACKS\<close> and the function
  returns \<^verbatim>\<open>void\<close>. Run on the code: 32 registrations from the reset state all
  return and fill the table; any further registration performs the store
  \<^verbatim>\<open>systick_callbacks_array[32] = to_insert\<close>, past the end of the array.
\<close>

theorem register_into_full_table_stores_past_end:
  "register_times 32 1 0x100 systick_reset_state = Inr full_table \<and>
   unat (systick_len full_table) = MAX_CALLBACKS \<and>
   systick_register_callback ms_later func full_table = Inl (Undefined Store_past_array_end)"
  by (simp add: full_table_reached)
    (simp add: full_table_def MAX_CALLBACKS_def systick_register_callback_def)

section \<open>The dispatcher: bit masks\<close>

lemma and_not_same: "(x AND NOT m) AND m = (0 :: 8 word)"
  by (simp add: bit_eq_iff bit_simps)

lemma and_not_other: "m AND m' = 0 \<Longrightarrow> (x AND NOT m) AND m' = x AND (m' :: 8 word)"
  by (auto simp: bit_eq_iff bit_simps)

lemma or_and_other: "m AND m' = 0 \<Longrightarrow> (x OR m) AND m' = x AND (m' :: 8 word)"
  by (auto simp: bit_eq_iff bit_simps)

lemma and_zero_mono: "x AND m = 0 \<Longrightarrow> (x AND y) AND m = (0 :: 8 word)"
  by (auto simp: bit_eq_iff bit_simps)

lemma and_or_zero: "x AND (a OR b) = 0 \<longleftrightarrow> x AND a = 0 \<and> x AND b = (0 :: 8 word)"
  by (auto simp: bit_eq_iff bit_simps)



lemma and_not_idem: "(x AND NOT a) AND NOT a = x AND NOT (a :: 8 word)"
  by (auto simp: bit_eq_iff bit_simps)





lemma wf_example: "wf_system_h example_system_h"
  by (simp add: wf_system_h_def example_system_h_def)

lemma wf_states:
  assumes "wf_system_h c"
  shows "STATE_HOLD c \<noteq> STATE_QUEUED c" "STATE_ALARM c \<noteq> STATE_CYCLE c"
  using assms by (auto simp add: wf_system_h_def)


lemma other_flags_disjoint:
  assumes "wf_system_h c"
  shows "(EXEC_RUNTIME_REPORT c OR EXEC_FEED_HOLD c OR EXEC_CYCLE_START c OR EXEC_CYCLE_STOP c)
           AND EXEC_RESET c = 0"
    "(EXEC_RUNTIME_REPORT c OR EXEC_FEED_HOLD c OR EXEC_CYCLE_START c OR EXEC_CYCLE_STOP c)
           AND EXEC_ALARM c = 0"
    "(EXEC_RUNTIME_REPORT c OR EXEC_FEED_HOLD c OR EXEC_CYCLE_START c OR EXEC_CYCLE_STOP c)
           AND EXEC_CRIT_EVENT c = 0"
  using assms
  by (simp_all add: wf_system_h_def bit.conj_disj_distrib2)


section \<open>The dispatcher: what each step leaves alone\<close>

lemma report_frame:
  "sys_state (exec_runtime_report c env s) = sys_state s"
  "sys_flags (exec_runtime_report c env s) = sys_flags s"
  "sys_abort (exec_runtime_report c env s) = sys_abort s"
  "settings_flags (exec_runtime_report c env s) = settings_flags s"
  by (simp_all add: exec_runtime_report_def call_def Let_def split: prod.splits)

lemma report_calls: "\<exists>evs. calls (exec_runtime_report c env s) = calls s @ evs"
  by (simp add: exec_runtime_report_def call_def Let_def split: prod.splits)

lemma reload_frame:
  "sys_state (reload_and_clear_io_reset c s) = sys_state s"
  "sys_flags (reload_and_clear_io_reset c s) = sys_flags s"
  "sys_abort (reload_and_clear_io_reset c s) = sys_abort s"
  "SYS_EXEC (reload_and_clear_io_reset c s) = SYS_EXEC s"
  by (simp_all add: reload_and_clear_io_reset_def call_def Let_def)

lemma reload_calls: "\<exists>evs. calls (reload_and_clear_io_reset c s) = calls s @ evs"
  by (simp add: reload_and_clear_io_reset_def call_def Let_def)

lemma check_reports_frame:
  "sys_state (protocol_check_required_reports c env s) = sys_state s"
  "sys_flags (protocol_check_required_reports c env s) = sys_flags s"
  "sys_abort (protocol_check_required_reports c env s) = sys_abort s"
  "settings_flags (protocol_check_required_reports c env s) = settings_flags s"
  "calls (protocol_check_required_reports c env s) = calls s"
  by (simp_all add: protocol_check_required_reports_def Let_def)

lemma check_reports_keeps:
  "sys_alarm (protocol_check_required_reports c env s) = sys_alarm s"
  "SYS_EXEC s AND NOT (SYS_EXEC (protocol_check_required_reports c env s)) = 0"
  "report_rqsts s AND NOT (report_rqsts (protocol_check_required_reports c env s)) = 0"
proof -
  have keep: "x AND NOT x = 0" "x AND NOT (x OR m) = 0" "x AND NOT ((x OR m) OR m') = 0"
    for x m m' :: "8 word"
    by (auto simp: bit_eq_iff bit_simps)
  show "sys_alarm (protocol_check_required_reports c env s) = sys_alarm s"
    "SYS_EXEC s AND NOT (SYS_EXEC (protocol_check_required_reports c env s)) = 0"
    "report_rqsts s AND NOT (report_rqsts (protocol_check_required_reports c env s)) = 0"
    by (simp_all add: protocol_check_required_reports_def Let_def keep del: bit.de_Morgan_disj)
qed

lemma reinit_frame:
  "sys_state (maybe_reinit_motors c env s) = sys_state s"
  "sys_flags (maybe_reinit_motors c env s) = sys_flags s"
  "sys_alarm (maybe_reinit_motors c env s) = sys_alarm s"
  "sys_abort (maybe_reinit_motors c env s) = sys_abort s"
  "SYS_EXEC (maybe_reinit_motors c env s) = SYS_EXEC s"
  "report_rqsts (maybe_reinit_motors c env s) = report_rqsts s"
  by (simp_all add: maybe_reinit_motors_def call_def Let_def)

lemma prologue_returns:
  assumes "systick_service_callbacks (callback_body env) (systick s) = Inr t"
  shows "\<exists>s1 evs. pass_prologue c env s = Inr s1 \<and> sys_state s1 = sys_state s \<and>
           sys_flags s1 = sys_flags s \<and> sys_abort s1 = sys_abort s \<and>
           settings_flags s1 = settings_flags s \<and> calls s1 = calls s @ evs"
  using assms
  by (simp add: pass_prologue_def Let_def check_reports_frame maybe_reinit_motors_def call_def)

lemma prologue_state: "pass_prologue c env s = Inr s1 \<Longrightarrow> sys_state s1 = sys_state s"
  by (auto simp: pass_prologue_def Let_def check_reports_frame maybe_reinit_motors_def call_def
      split: sum.splits)

lemma prologue_frame:
  assumes "pass_prologue c env s = Inr s1"
  shows "sys_flags s1 = sys_flags s" "sys_alarm s1 = sys_alarm s" "sys_abort s1 = sys_abort s"
    "SYS_EXEC s AND NOT (SYS_EXEC s1) = 0" "report_rqsts s AND NOT (report_rqsts s1) = 0"
  using assms check_reports_keeps(2,3) [of "s\<lparr>systick := t\<rparr>" c env for t]
    check_reports_keeps(2,3) [of "maybe_reinit_motors c env (s\<lparr>systick := t\<rparr>)" c env for t]
  by (auto simp: pass_prologue_def Let_def check_reports_frame check_reports_keeps(1) reinit_frame
      call_def split: sum.splits if_splits)

lemma alarm_state: "exec_alarm c env rt_exec s = Inr s2 \<Longrightarrow> sys_state s2 = STATE_ALARM c"
  by (auto simp: exec_alarm_def critical_event_lockout_def Let_def call_def
      split: sum.splits if_splits option.splits)

lemma alarm_frame:
  assumes "exec_alarm c env rt_exec s = Inr s2"
  shows "sys_flags s2 = sys_flags s" "sys_abort s2 = sys_abort s" "report_rqsts s2 = report_rqsts s"
    "sys_alarm s2 = 0"
  using assms
  by (auto simp: exec_alarm_def critical_event_lockout_def Let_def call_def
      split: sum.splits if_splits option.splits)



section \<open>The dispatcher: the lockout\<close>

lemma lockout_None:
  "lockout_wait c irqs ex = None \<longleftrightarrow>
   ex AND EXEC_RESET c = 0 \<and> list_all (\<lambda>irq. irq AND EXEC_RESET c = 0) irqs"
proof (induction irqs arbitrary: ex)
  case Nil
  show ?case by simp
next
  case (Cons irq irqs)
  have "(ex OR irq) AND EXEC_RESET c = 0 \<longleftrightarrow> ex AND EXEC_RESET c = 0 \<and> irq AND EXEC_RESET c = 0"
    by (auto simp: bit_eq_iff bit_simps)
  with Cons show ?case by auto
qed

lemma lockout_Some:
  "lockout_wait c irqs ex = Some ex' \<Longrightarrow> ex' AND EXEC_RESET c \<noteq> 0 \<and> ex AND NOT ex' = 0"
proof (induction irqs arbitrary: ex)
  case Nil
  then show ?case by (auto split: if_splits)
next
  case (Cons irq irqs)
  show ?case
  proof (cases "(ex OR irq) AND EXEC_RESET c = 0")
    case True
    with Cons.prems have "lockout_wait c irqs (ex OR irq) = Some ex'" by simp
    from Cons.IH [OF this] have r: "ex' AND EXEC_RESET c \<noteq> 0" and g: "(ex OR irq) AND NOT ex' = 0"
      by simp_all
    from g have "ex AND NOT ex' = 0"
      by (auto simp: bit_eq_iff bit_simps)
    with r show ?thesis by simp
  next
    case False
    with Cons.prems have e: "ex' = ex OR irq" by simp
    have "ex AND NOT (ex OR irq) = 0"
      by (auto simp: bit_eq_iff bit_simps)
    with False e show ?thesis by simp
  qed
qed

lemma list_ex_reset:
  "list_ex (\<lambda>irq. irq AND EXEC_RESET c \<noteq> 0) irqs \<longleftrightarrow>
   \<not> list_all (\<lambda>irq. irq AND EXEC_RESET c = 0) irqs"
  by (induction irqs) auto

lemma exec_alarm_alt:
  "exec_alarm c env rt_exec s =
     map_sum id (alarm_done c)
       (if rt_exec AND EXEC_CRIT_EVENT c \<noteq> 0 then critical_event_lockout c env (alarm_begin c s)
        else Inr (alarm_begin c s))"
  by (simp add: exec_alarm_def alarm_begin_def alarm_done_def Let_def split: sum.splits)


lemma alarm_hangs:
  assumes "exec_alarm c env rt_exec s = Inl h"
  shows "h = Never_returns \<and> rt_exec AND EXEC_CRIT_EVENT c \<noteq> 0 \<and>
         list_all (\<lambda>irq. irq AND EXEC_RESET c = 0) (reset_irqs env)"
proof -
  from assms have crit: "rt_exec AND EXEC_CRIT_EVENT c \<noteq> 0"
    by (auto simp: exec_alarm_alt split: if_splits)
  with assms have "critical_event_lockout c env (alarm_begin c s) = Inl h"
    by (cases "critical_event_lockout c env (alarm_begin c s)") (simp_all add: exec_alarm_alt)
  then have "h = Never_returns \<and>
      lockout_wait c (reset_irqs env) (SYS_EXEC (alarm_begin c s) AND NOT (EXEC_RESET c)) = None"
    by (auto simp: critical_event_lockout_def Let_def call_def split: option.splits)
  with crit show ?thesis by (simp add: lockout_None)
qed

lemma alarm_pending:
  assumes run: "exec_alarm c env rt_exec s = Inr s2"
    and dis: "m AND EXEC_RESET c = 0" "m AND EXEC_ALARM c = 0" "m AND EXEC_CRIT_EVENT c = 0"
  shows "(SYS_EXEC s AND m) AND NOT (SYS_EXEC s2) = 0"
proof -
  have direct: "(x AND m) AND NOT (x AND NOT (EXEC_ALARM c OR EXEC_CRIT_EVENT c)) = 0" for x
    using dis(2,3) by (auto simp: bit_eq_iff bit_simps)
  have waited: "(x AND m) AND NOT (e AND NOT (EXEC_ALARM c OR EXEC_CRIT_EVENT c)) = 0"
    if "(x AND NOT (EXEC_RESET c)) AND NOT e = 0" for x e
    using that dis by (auto simp: bit_eq_iff bit_simps)
  show ?thesis
  proof (cases "rt_exec AND EXEC_CRIT_EVENT c = 0")
    case True
    with run have "SYS_EXEC s2 = SYS_EXEC s AND NOT (EXEC_ALARM c OR EXEC_CRIT_EVENT c)"
      by (auto simp: exec_alarm_def Let_def call_def)
    then show ?thesis by (simp only: direct)
  next
    case False
    with run obtain e where e: "lockout_wait c (reset_irqs env) (SYS_EXEC s AND NOT (EXEC_RESET c)) = Some e"
      and s2: "SYS_EXEC s2 = e AND NOT (EXEC_ALARM c OR EXEC_CRIT_EVENT c)"
      by (auto simp: exec_alarm_def critical_event_lockout_def Let_def call_def
          split: option.splits)
    from lockout_Some [OF e] have "(SYS_EXEC s AND NOT (EXEC_RESET c)) AND NOT e = 0" by simp
    from waited [OF this] s2 show ?thesis by (simp only:)
  qed
qed



lemma alarm_calls:
  "exec_alarm c env rt_exec s = Inr s2 \<Longrightarrow>
   calls s2 = calls s @ Report_alarm_message (sys_alarm s) #
     (if rt_exec AND EXEC_CRIT_EVENT c = 0 then []
      else [Report_feedback_message MESSAGE_CRITICAL_EVENT])"
  by (auto simp: exec_alarm_def critical_event_lockout_def Let_def call_def
      split: sum.splits if_splits option.splits)

lemma alarm_cleared:
  assumes "exec_alarm c env rt_exec s = Inr s2"
  shows "SYS_EXEC s2 AND (EXEC_ALARM c OR EXEC_CRIT_EVENT c) = 0"
proof -
  from assms have "\<exists>x. SYS_EXEC s2 = x AND NOT (EXEC_ALARM c OR EXEC_CRIT_EVENT c)"
    by (auto simp: exec_alarm_def Let_def split: if_splits sum.splits
        simp del: bit.de_Morgan_disj)
  then obtain x where "SYS_EXEC s2 = x AND NOT (EXEC_ALARM c OR EXEC_CRIT_EVENT c)" ..
  then show ?thesis by (simp only: and_not_same)
qed

lemma alarm_waited:
  assumes run: "exec_alarm c env rt_exec s = Inr s2"
    and crit: "rt_exec AND EXEC_CRIT_EVENT c \<noteq> 0"
    and dis: "EXEC_RESET c AND EXEC_ALARM c = 0" "EXEC_RESET c AND EXEC_CRIT_EVENT c = 0"
  shows "list_ex (\<lambda>irq. irq AND EXEC_RESET c \<noteq> 0) (reset_irqs env)"
    and "SYS_EXEC s2 AND EXEC_RESET c \<noteq> 0"
proof -
  from run crit obtain e where
    e: "lockout_wait c (reset_irqs env) (SYS_EXEC s AND NOT (EXEC_RESET c)) = Some e"
    and s2: "SYS_EXEC s2 = e AND NOT (EXEC_ALARM c OR EXEC_CRIT_EVENT c)"
    by (auto simp: exec_alarm_def critical_event_lockout_def Let_def call_def
        split: option.splits)
  from e have "lockout_wait c (reset_irqs env) (SYS_EXEC s AND NOT (EXEC_RESET c)) \<noteq> None"
    by simp
  then show "list_ex (\<lambda>irq. irq AND EXEC_RESET c \<noteq> 0) (reset_irqs env)"
    by (simp add: lockout_None and_not_same list_ex_reset)
  from lockout_Some [OF e] have "e AND EXEC_RESET c \<noteq> 0" by simp
  with dis have "(e AND NOT (EXEC_ALARM c OR EXEC_CRIT_EVENT c)) AND EXEC_RESET c \<noteq> 0"
    by (auto simp: bit_eq_iff bit_simps)
  with s2 show "SYS_EXEC s2 AND EXEC_RESET c \<noteq> 0" by (simp only:) simp
qed


section \<open>The dispatcher: the calls of a pass\<close>





lemma emits_prologue:
  "pass_prologue c env s = Inr s1 \<Longrightarrow>
   emits {Motor_drv_init, St_check_disable, Request_eol_report} s s1"
  by (auto simp: emits_def pass_prologue_def Let_def check_reports_frame maybe_reinit_motors_def
      call_def split: sum.splits)

lemma prologue_calls:
  "pass_prologue c env s = Inr s1 \<Longrightarrow>
   \<exists>evs. set evs \<subseteq> {Motor_drv_init, St_check_disable, Request_eol_report} \<and>
         calls s1 = calls s @ evs"
  by (drule emits_prologue) (auto simp: emits_def)






section \<open>The dispatcher: a pass with and without the feed-hold bit\<close>

lemma clear_feed_hold_fields [simp]:
  "sys_state (clear_feed_hold c s) = sys_state s"
  "sys_flags (clear_feed_hold c s) = sys_flags s"
  "sys_alarm (clear_feed_hold c s) = sys_alarm s"
  "report_rqsts (clear_feed_hold c s) = report_rqsts s"
  "settings_flags (clear_feed_hold c s) = settings_flags s"
  "settings_spi_motor_drivers (clear_feed_hold c s) = settings_spi_motor_drivers s"
  "systick (clear_feed_hold c s) = systick s"
  "calls (clear_feed_hold c s) = calls s"
  "SYS_EXEC (clear_feed_hold c s) = SYS_EXEC s AND NOT (EXEC_FEED_HOLD c)"
  by (simp_all add: clear_feed_hold_def)


lemma clear_feed_hold_idem [simp]: "clear_feed_hold c (clear_feed_hold c s) = clear_feed_hold c s"
  by (simp add: clear_feed_hold_def and_not_idem)





















section \<open>The dispatcher: feed hold in a cycle\<close>

lemma feed_hold_step:
  assumes "sys_state s = STATE_CYCLE c"
  shows "sys_state (exec_feed_hold c s) = STATE_HOLD c"
    and "calls (exec_feed_hold c s) = calls s @ [St_update_plan_block_parameters, St_prep_buffer]"
    and "sys_flags (exec_feed_hold c s) AND SYSFLAG_AUTOSTART c = 0"
    and "SYS_EXEC (exec_feed_hold c s) AND EXEC_FEED_HOLD c = 0"
  using assms by (simp_all add: exec_feed_hold_def call_def Let_def and_not_same)

lemma exec_flags_feed_hold:
  assumes wf: "wf_system_h c"
    and fh: "rt_exec AND EXEC_FEED_HOLD c \<noteq> 0"
    and cyc: "sys_state s = STATE_CYCLE c"
  shows "\<exists>pre. calls (exec_flags c env rt_exec s) =
             calls s @ pre @ [St_update_plan_block_parameters, St_prep_buffer]"
    and "SYS_EXEC (exec_flags c env rt_exec s) AND EXEC_FEED_HOLD c = 0"
    and "sys_flags (exec_flags c env rt_exec s) AND SYSFLAG_AUTOSTART c = 0"
    and "sys_state (exec_flags c env rt_exec s) =
           (if rt_exec AND EXEC_CYCLE_STOP c \<noteq> 0
            then (if plan_get_current_block env then STATE_QUEUED c else STATE_IDLE c)
            else STATE_HOLD c)"
proof -
  define s1 where "s1 = (if rt_exec AND EXEC_RUNTIME_REPORT c \<noteq> 0 then exec_runtime_report c env s else s)"
  define s2 where "s2 = exec_feed_hold c s1"
  have st1: "sys_state s1 = STATE_CYCLE c"
    by (simp add: s1_def report_frame cyc)
  have "\<exists>pre. calls s1 = calls s @ pre"
    using report_calls [of c env s] by (simp add: s1_def)
  then obtain pre where pre: "calls s1 = calls s @ pre" ..
  note fh2 = feed_hold_step [OF st1, folded s2_def]
  from wf have "STATE_HOLD c \<noteq> STATE_QUEUED c" by (rule wf_states)
  with fh2(1) have cs: "exec_cycle_start c s2 = s2"
    by (simp add: exec_cycle_start_def)
  have ef: "exec_flags c env rt_exec s =
      (if rt_exec AND EXEC_CYCLE_STOP c \<noteq> 0 then exec_cycle_stop c env s2 else s2)"
    using fh cs by (simp add: exec_flags_def Let_def s1_def s2_def)
  show "\<exists>pre. calls (exec_flags c env rt_exec s) =
             calls s @ pre @ [St_update_plan_block_parameters, St_prep_buffer]"
    using fh2(2) pre by (simp add: ef exec_cycle_stop_def Let_def)
  show "SYS_EXEC (exec_flags c env rt_exec s) AND EXEC_FEED_HOLD c = 0"
    using fh2(4) by (simp add: ef exec_cycle_stop_def Let_def and_zero_mono)
  show "sys_flags (exec_flags c env rt_exec s) AND SYSFLAG_AUTOSTART c = 0"
    using fh2(3) by (simp add: ef exec_cycle_stop_def Let_def)
  show "sys_state (exec_flags c env rt_exec s) =
           (if rt_exec AND EXEC_CYCLE_STOP c \<noteq> 0
            then (if plan_get_current_block env then STATE_QUEUED c else STATE_IDLE c)
            else STATE_HOLD c)"
    using fh2(1) by (simp add: ef exec_cycle_stop_def Let_def)
qed



section \<open>The dispatcher: the example passes\<close>

lemma quiet_service: "systick_service_callbacks no_effect quiet_systick = Inr quiet_systick"
  by (simp add: systick_service_callbacks_def quiet_systick_def systick_reset_state_def
      MAX_CALLBACKS_def)

lemmas example_defs =
  protocol_execute_runtime_def pass_prologue_def protocol_check_required_reports_def
  exec_flags_def exec_alarm_def critical_event_lockout_def exec_runtime_report_def
  exec_feed_hold_def exec_cycle_start_def exec_cycle_stop_def reload_and_clear_io_reset_def
  call_def Let_def example_system_h_def quiet_env_def block_pending_env_def idle_machine_def
  quiet_service

lemma pass_hold_in_cycle:
  "protocol_execute_runtime example_system_h quiet_env hold_in_cycle = Inr held"
  by (simp add: example_defs hold_in_cycle_def held_def)

lemma pass_hold_and_reset_in_cycle:
  "protocol_execute_runtime example_system_h quiet_env hold_and_reset_in_cycle = Inr aborted_in_cycle"
  by (simp add: example_defs hold_and_reset_in_cycle_def aborted_in_cycle_def)




lemma pass_reset_and_start:
  "protocol_execute_runtime example_system_h quiet_env reset_and_start_in_queued =
     Inr aborted_in_queued"
  by (simp add: example_defs reset_and_start_in_queued_def aborted_in_queued_def)

lemma pass_reset_and_alarm:
  "protocol_execute_runtime example_system_h quiet_env reset_and_alarm = Inr alarm_then_aborted"
  by (simp add: example_defs reset_and_alarm_def alarm_then_aborted_def)

lemma pass_reset_and_critical_event:
  "protocol_execute_runtime example_system_h quiet_env reset_and_critical_event =
     Inl Never_returns"
  by (simp add: example_defs reset_and_critical_event_def)



lemma synchronize_drains:
  "protocol_buffer_synchronize example_system_h
     [(True, 0, block_pending_env), (False, 4, quiet_env), (False, 0, quiet_env)]
     cycle_running = Some (Inr (Some False, drained))"
  by (simp add: protocol_buffer_synchronize_def example_defs cycle_running_def drained_def)

lemma pass_reset_arrives:
  "protocol_execute_runtime example_system_h reset_arrives_env reset_and_critical_event =
     Inr lockout_then_aborted"
  by (simp add: example_defs reset_arrives_env_def reset_and_critical_event_def
      lockout_then_aborted_def)

lemma turns_still_running:
  "turns_passed example_system_h [(True, 0, block_pending_env)]
     (synchronize_entry example_system_h cycle_running) = Some still_running"
  by (simp add: synchronize_entry_def example_defs cycle_running_def still_running_def)

lemma turns_drained:
  "turns_passed example_system_h [(True, 0, block_pending_env), (False, 4, quiet_env)]
     (synchronize_entry example_system_h cycle_running) = Some drained"
  by (simp add: synchronize_entry_def example_defs cycle_running_def drained_def)

lemma pass_reset_while_waiting:
  "protocol_execute_runtime example_system_h quiet_env
     (still_running\<lparr>SYS_EXEC := SYS_EXEC still_running OR 16\<rparr>) = Inr aborted_waiting"
  by (simp add: example_defs cycle_running_def still_running_def aborted_waiting_def)


section \<open>The dispatcher: feed hold\<close>

text \<open>
  Claim C6: for every dispatcher pass whose flag snapshot has the FeedHold bit set while
  the machine state is Cycle, the pass sets the state to Hold, calls
  \<^verbatim>\<open>st_update_plan_block_parameters\<close> and then \<^verbatim>\<open>st_prep_buffer\<close>, clears the
  auto-start flag, and clears the FeedHold bit.

  As stated the claim fails for a snapshot that also carries the reset bit (the pass
  returns before the feed-hold branch) or an alarm bit (the state is Alarm when the
  branch is reached). Amended, and proved here: for every pass whose snapshot has the
  FeedHold bit and none of Reset, Alarm and CriticalEvent, with the state Cycle and a
  callback service that returns, the pass returns, has called
  \<^verbatim>\<open>st_update_plan_block_parameters\<close> and next \<^verbatim>\<open>st_prep_buffer\<close>, and ends
  with the auto-start flag and the FeedHold bit cleared; the state it set is Hold, and
  Hold is the state at the end of the pass unless the snapshot has CycleStop as well,
  whose branch, later in the same pass, puts Queued or Idle in its place.
\<close>

theorem feed_hold_in_cycle:
  assumes wf: "wf_system_h c"
    and fh: "SYS_EXEC s AND EXEC_FEED_HOLD c \<noteq> 0"
    and no_reset: "SYS_EXEC s AND EXEC_RESET c = 0"
    and no_alarm: "SYS_EXEC s AND EXEC_ALARM c = 0"
    and no_crit: "SYS_EXEC s AND EXEC_CRIT_EVENT c = 0"
    and cyc: "sys_state s = STATE_CYCLE c"
    and srv: "systick_service_callbacks (callback_body env) (systick s) = Inr t"
  shows "\<exists>s' pre post. protocol_execute_runtime c env s = Inr s' \<and>
           calls s' = calls s @ pre @ [St_update_plan_block_parameters, St_prep_buffer] @ post \<and>
           SYS_EXEC s' AND EXEC_FEED_HOLD c = 0 \<and>
           sys_flags s' AND SYSFLAG_AUTOSTART c = 0 \<and>
           sys_state s' =
             (if SYS_EXEC s AND EXEC_CYCLE_STOP c \<noteq> 0
              then (if plan_get_current_block env then STATE_QUEUED c else STATE_IDLE c)
              else STATE_HOLD c)"
proof -
  from prologue_returns [OF srv, of c]
  obtain s1 evs where pro: "pass_prologue c env s = Inr s1" and st1: "sys_state s1 = STATE_CYCLE c"
    and c1: "calls s1 = calls s @ evs"
    using cyc by auto
  from fh have nz: "SYS_EXEC s \<noteq> 0" by auto
  from no_alarm no_crit have na: "SYS_EXEC s AND (EXEC_ALARM c OR EXEC_CRIT_EVENT c) = 0"
    by (simp add: and_or_zero)
  let ?s2 = "exec_flags c env (SYS_EXEC s) s1"
  let ?s' = "reload_and_clear_io_reset c ?s2"
  have run: "protocol_execute_runtime c env s = Inr ?s'"
    using pro nz na no_reset by (simp add: protocol_execute_runtime_def Let_def)
  note ef = exec_flags_feed_hold [OF wf fh st1, of env]
  from ef(1) obtain pre where pre: "calls ?s2 = calls s1 @ pre @ [St_update_plan_block_parameters, St_prep_buffer]"
    by auto
  obtain post where post: "calls ?s' = calls ?s2 @ post"
    using reload_calls [of c ?s2] by auto
  have "calls ?s' = calls s @ (evs @ pre) @ [St_update_plan_block_parameters, St_prep_buffer] @ post"
    by (simp add: post pre c1)
  with run ef(2-4) show ?thesis
    by (auto simp add: reload_frame simp del: append_assoc)
qed

theorem feed_hold_in_cycle_witness:
  "wf_system_h example_system_h \<and>
   SYS_EXEC hold_in_cycle AND EXEC_FEED_HOLD example_system_h \<noteq> 0 \<and>
   SYS_EXEC hold_in_cycle AND EXEC_RESET example_system_h = 0 \<and>
   SYS_EXEC hold_in_cycle AND EXEC_ALARM example_system_h = 0 \<and>
   SYS_EXEC hold_in_cycle AND EXEC_CRIT_EVENT example_system_h = 0 \<and>
   sys_state hold_in_cycle = STATE_CYCLE example_system_h \<and>
   systick_service_callbacks (callback_body quiet_env) (systick hold_in_cycle) = Inr quiet_systick \<and>
   protocol_execute_runtime example_system_h quiet_env hold_in_cycle = Inr held \<and>
   (\<exists>s' pre post. protocol_execute_runtime example_system_h quiet_env hold_in_cycle = Inr s' \<and>
      calls s' = calls hold_in_cycle @ pre @
        [St_update_plan_block_parameters, St_prep_buffer] @ post \<and>
      SYS_EXEC s' AND EXEC_FEED_HOLD example_system_h = 0 \<and>
      sys_flags s' AND SYSFLAG_AUTOSTART example_system_h = 0 \<and>
      sys_state s' =
        (if SYS_EXEC hold_in_cycle AND EXEC_CYCLE_STOP example_system_h \<noteq> 0
         then (if plan_get_current_block quiet_env then STATE_QUEUED example_system_h
               else STATE_IDLE example_system_h)
         else STATE_HOLD example_system_h))"
proof -
  have h1: "SYS_EXEC hold_in_cycle AND EXEC_FEED_HOLD example_system_h \<noteq> 0"
    and h2: "SYS_EXEC hold_in_cycle AND EXEC_RESET example_system_h = 0"
    and h3: "SYS_EXEC hold_in_cycle AND EXEC_ALARM example_system_h = 0"
    and h4: "SYS_EXEC hold_in_cycle AND EXEC_CRIT_EVENT example_system_h = 0"
    and h5: "sys_state hold_in_cycle = STATE_CYCLE example_system_h"
    by (simp_all add: hold_in_cycle_def idle_machine_def example_system_h_def)
  have h6: "systick_service_callbacks (callback_body quiet_env) (systick hold_in_cycle) =
      Inr quiet_systick"
    by (simp add: hold_in_cycle_def idle_machine_def quiet_env_def quiet_service)
  from wf_example h1 h2 h3 h4 h5 h6 pass_hold_in_cycle
    feed_hold_in_cycle [OF wf_example h1 h2 h3 h4 h5 h6]
  show ?thesis by (intro conjI)
qed


text \<open>
  The claim as stated, refuted: feed hold and reset in one snapshot, state Cycle. The pass
  sets abort and returns; the state is still Cycle, the FeedHold bit and the auto-start
  flag are still set, and the stepper engine has not been called.
\<close>

theorem feed_hold_with_reset_counterexample:
  "SYS_EXEC hold_and_reset_in_cycle AND EXEC_FEED_HOLD example_system_h \<noteq> 0 \<and>
   sys_state hold_and_reset_in_cycle = STATE_CYCLE example_system_h \<and>
   protocol_execute_runtime example_system_h quiet_env hold_and_reset_in_cycle =
     Inr aborted_in_cycle \<and>
   sys_state aborted_in_cycle = STATE_CYCLE example_system_h \<and>
   SYS_EXEC aborted_in_cycle AND EXEC_FEED_HOLD example_system_h \<noteq> 0 \<and>
   sys_flags aborted_in_cycle AND SYSFLAG_AUTOSTART example_system_h \<noteq> 0 \<and>
   calls aborted_in_cycle = [St_check_disable]"
  by (simp add: pass_hold_and_reset_in_cycle)
    (simp add: aborted_in_cycle_def hold_and_reset_in_cycle_def idle_machine_def
      example_system_h_def)







section \<open>The dispatcher: reset\<close>

text \<open>
  Claim C8: for every dispatcher pass whose flag snapshot has the Reset bit set, the
  reset path takes priority over every other flag in that snapshot: the pass sets the
  terminal abort condition and returns without handling any other flag (alarm, critical
  event, report, feed hold, cycle start, or cycle stop) of that snapshot.

  As stated the claim fails for the alarm and critical-event flags: their branch stands
  before the reset test in the source and runs first. Amended, and proved here, for every
  pass whose snapshot has the Reset bit and whose callback service returns:

  \<^item> an Alarm or CriticalEvent bit of the snapshot is handled first: the state becomes
    Alarm, the alarm code is reported (and, on a critical event, the critical-event
    message after it), the alarm code is reset, and the pass ends with the Alarm and
    CriticalEvent bits cleared;

  \<^item> with the CriticalEvent bit the pass waits in the lockout: it returns only if an
    interrupt sets the Reset bit during the wait, with that bit pending, and it never
    returns if none does; a pass that does not return is one with the CriticalEvent bit
    and no such interrupt;

  \<^item> after that the pass sets abort and returns without handling the report, feed-hold,
    cycle-start and cycle-stop flags of the snapshot: none of these bits is cleared, no
    report request is dropped, the auto-start flag is unchanged, the state and the alarm
    code are unchanged if no alarm was handled, and the calls of the pass are exactly
    those every pass makes before it looks at the flags (motor-driver re-initialisation,
    idle-disable check, end-of-line report request), followed by the alarm messages: no
    report is sent and the step segment buffer is neither refilled nor woken up.
\<close>

theorem reset_skips_other_flags:
  assumes wf: "wf_system_h c"
    and reset: "SYS_EXEC s AND EXEC_RESET c \<noteq> 0"
    and srv: "systick_service_callbacks (callback_body env) (systick s) = Inr t"
  shows "case protocol_execute_runtime c env s of
           Inl h \<Rightarrow> h = Never_returns \<and> SYS_EXEC s AND EXEC_CRIT_EVENT c \<noteq> 0 \<and>
                    list_all (\<lambda>irq. irq AND EXEC_RESET c = 0) (reset_irqs env)
         | Inr s' \<Rightarrow>
             sys_abort s' \<and> sys_flags s' = sys_flags s \<and>
             (SYS_EXEC s AND (EXEC_RUNTIME_REPORT c OR EXEC_FEED_HOLD c OR EXEC_CYCLE_START c OR
                 EXEC_CYCLE_STOP c)) AND NOT (SYS_EXEC s') = 0 \<and>
             report_rqsts s AND NOT (report_rqsts s') = 0 \<and>
             (\<exists>evs. set evs \<subseteq> {Motor_drv_init, St_check_disable, Request_eol_report} \<and>
                calls s' = calls s @ evs @
                  (if SYS_EXEC s AND (EXEC_ALARM c OR EXEC_CRIT_EVENT c) = 0 then []
                   else Report_alarm_message (sys_alarm s) #
                     (if SYS_EXEC s AND EXEC_CRIT_EVENT c = 0 then []
                      else [Report_feedback_message MESSAGE_CRITICAL_EVENT]))) \<and>
             (if SYS_EXEC s AND (EXEC_ALARM c OR EXEC_CRIT_EVENT c) = 0
              then sys_state s' = sys_state s \<and> sys_alarm s' = sys_alarm s
              else sys_state s' = STATE_ALARM c \<and> sys_alarm s' = 0 \<and>
                   SYS_EXEC s' AND (EXEC_ALARM c OR EXEC_CRIT_EVENT c) = 0) \<and>
             (SYS_EXEC s AND EXEC_CRIT_EVENT c \<noteq> 0 \<longrightarrow>
                list_ex (\<lambda>irq. irq AND EXEC_RESET c \<noteq> 0) (reset_irqs env) \<and>
                SYS_EXEC s' AND EXEC_RESET c \<noteq> 0)"
proof -
  let ?others = "EXEC_RUNTIME_REPORT c OR EXEC_FEED_HOLD c OR EXEC_CYCLE_START c OR EXEC_CYCLE_STOP c"
  from prologue_returns [OF srv, of c] obtain s1 where pro: "pass_prologue c env s = Inr s1"
    by auto
  note f1 = prologue_frame [OF pro] prologue_state [OF pro]
  from prologue_calls [OF pro] obtain evs where
    evs: "set evs \<subseteq> {Motor_drv_init, St_check_disable, Request_eol_report}"
    and c1: "calls s1 = calls s @ evs"
    by blast
  from reset have nz: "SYS_EXEC s \<noteq> 0" by auto
  from wf have dis: "EXEC_RESET c AND EXEC_ALARM c = 0" "EXEC_RESET c AND EXEC_CRIT_EVENT c = 0"
    by (simp_all add: wf_system_h_def)
  have sub: "(a AND m) AND NOT b = 0" if "a AND NOT b = 0" for a b m :: "8 word"
    using that by (auto simp: bit_eq_iff bit_simps)
  have chain: "(a AND m) AND NOT d = 0" if "a AND NOT b = 0" "(b AND m) AND NOT d = 0"
    for a b d m :: "8 word"
    using that by (auto simp: bit_eq_iff bit_simps)
  show ?thesis
  proof (cases "SYS_EXEC s AND (EXEC_ALARM c OR EXEC_CRIT_EVENT c) = 0")
    case True
    then have nocrit: "SYS_EXEC s AND EXEC_CRIT_EVENT c = 0"
      by (simp add: and_or_zero)
    from True pro nz reset
    have run: "protocol_execute_runtime c env s = Inr (s1\<lparr>sys_abort := True\<rparr>)"
      by (simp add: protocol_execute_runtime_def)
    from evs c1 have "\<exists>evs. set evs \<subseteq> {Motor_drv_init, St_check_disable, Request_eol_report} \<and>
        calls s1 = calls s @ evs"
      by blast
    with True nocrit f1 sub [OF f1(4)] show ?thesis
      by (simp add: run)
  next
    case False
    show ?thesis
    proof (cases "exec_alarm c env (SYS_EXEC s) s1")
      case (Inl h)
      with False pro nz have "protocol_execute_runtime c env s = Inl h"
        by (simp add: protocol_execute_runtime_def)
      with alarm_hangs [OF Inl] show ?thesis by simp
    next
      case (Inr s2)
      with False pro nz reset
      have run: "protocol_execute_runtime c env s = Inr (s2\<lparr>sys_abort := True\<rparr>)"
        by (simp add: protocol_execute_runtime_def)
      note f2 = alarm_frame [OF Inr] alarm_state [OF Inr]
      from alarm_calls [OF Inr] c1 f1(2)
      have c2: "calls s2 = calls s @ evs @ Report_alarm_message (sys_alarm s) #
          (if SYS_EXEC s AND EXEC_CRIT_EVENT c = 0 then []
           else [Report_feedback_message MESSAGE_CRITICAL_EVENT])"
        by simp
      with evs have ex: "\<exists>evs. set evs \<subseteq> {Motor_drv_init, St_check_disable, Request_eol_report} \<and>
          calls s2 = calls s @ evs @ Report_alarm_message (sys_alarm s) #
            (if SYS_EXEC s AND EXEC_CRIT_EVENT c = 0 then []
             else [Report_feedback_message MESSAGE_CRITICAL_EVENT])"
        by blast
      from alarm_pending [OF Inr other_flags_disjoint [OF wf]]
      have "(SYS_EXEC s1 AND ?others) AND NOT (SYS_EXEC s2) = 0" .
      from chain [OF f1(4) this]
      have kept: "(SYS_EXEC s AND ?others) AND NOT (SYS_EXEC s2) = 0" .
      note cleared = alarm_cleared [OF Inr]
      have waited: "list_ex (\<lambda>irq. irq AND EXEC_RESET c \<noteq> 0) (reset_irqs env) \<and>
          SYS_EXEC s2 AND EXEC_RESET c \<noteq> 0"
        if "SYS_EXEC s AND EXEC_CRIT_EVENT c \<noteq> 0"
        using alarm_waited [OF Inr that dis] by simp
      have "sys_abort (s2\<lparr>sys_abort := True\<rparr>)" by simp
      moreover have "sys_flags (s2\<lparr>sys_abort := True\<rparr>) = sys_flags s"
        using f1 f2 by simp
      moreover have "(SYS_EXEC s AND ?others) AND NOT (SYS_EXEC (s2\<lparr>sys_abort := True\<rparr>)) = 0"
        using kept by simp
      moreover have "report_rqsts s AND NOT (report_rqsts (s2\<lparr>sys_abort := True\<rparr>)) = 0"
        using f1 f2 by simp
      moreover have "\<exists>evs. set evs \<subseteq> {Motor_drv_init, St_check_disable, Request_eol_report} \<and>
          calls (s2\<lparr>sys_abort := True\<rparr>) = calls s @ evs @
            (if SYS_EXEC s AND (EXEC_ALARM c OR EXEC_CRIT_EVENT c) = 0 then []
             else Report_alarm_message (sys_alarm s) #
               (if SYS_EXEC s AND EXEC_CRIT_EVENT c = 0 then []
                else [Report_feedback_message MESSAGE_CRITICAL_EVENT]))"
        using ex False by simp
      moreover have "if SYS_EXEC s AND (EXEC_ALARM c OR EXEC_CRIT_EVENT c) = 0
          then sys_state (s2\<lparr>sys_abort := True\<rparr>) = sys_state s \<and>
               sys_alarm (s2\<lparr>sys_abort := True\<rparr>) = sys_alarm s
          else sys_state (s2\<lparr>sys_abort := True\<rparr>) = STATE_ALARM c \<and>
               sys_alarm (s2\<lparr>sys_abort := True\<rparr>) = 0 \<and>
               SYS_EXEC (s2\<lparr>sys_abort := True\<rparr>) AND (EXEC_ALARM c OR EXEC_CRIT_EVENT c) = 0"
        using False f2 cleared by simp
      moreover have "SYS_EXEC s AND EXEC_CRIT_EVENT c \<noteq> 0 \<longrightarrow>
          list_ex (\<lambda>irq. irq AND EXEC_RESET c \<noteq> 0) (reset_irqs env) \<and>
          SYS_EXEC (s2\<lparr>sys_abort := True\<rparr>) AND EXEC_RESET c \<noteq> 0"
        using waited by simp
      ultimately show ?thesis
        by (simp only: run sum.case)
    qed
  qed
qed

theorem reset_skips_other_flags_witness:
  "wf_system_h example_system_h \<and>
   SYS_EXEC reset_and_start_in_queued AND EXEC_RESET example_system_h \<noteq> 0 \<and>
   SYS_EXEC reset_and_start_in_queued AND EXEC_CYCLE_START example_system_h \<noteq> 0 \<and>
   sys_state reset_and_start_in_queued = STATE_QUEUED example_system_h \<and>
   systick_service_callbacks (callback_body quiet_env) (systick reset_and_start_in_queued) =
     Inr quiet_systick \<and>
   protocol_execute_runtime example_system_h quiet_env reset_and_start_in_queued =
     Inr aborted_in_queued \<and>
   sys_abort aborted_in_queued \<and>
   sys_flags aborted_in_queued = sys_flags reset_and_start_in_queued \<and>
   sys_state aborted_in_queued = STATE_QUEUED example_system_h \<and>
   SYS_EXEC aborted_in_queued AND EXEC_CYCLE_START example_system_h \<noteq> 0 \<and>
   calls aborted_in_queued = calls reset_and_start_in_queued @ [St_check_disable] \<and>
   SYS_EXEC reset_and_critical_event AND EXEC_RESET example_system_h \<noteq> 0 \<and>
   SYS_EXEC reset_and_critical_event AND EXEC_CRIT_EVENT example_system_h \<noteq> 0 \<and>
   systick_service_callbacks (callback_body reset_arrives_env) (systick reset_and_critical_event) =
     Inr quiet_systick \<and>
   protocol_execute_runtime example_system_h reset_arrives_env reset_and_critical_event =
     Inr lockout_then_aborted \<and>
   sys_abort lockout_then_aborted \<and>
   sys_state lockout_then_aborted = STATE_ALARM example_system_h \<and>
   sys_alarm lockout_then_aborted = 0 \<and>
   SYS_EXEC lockout_then_aborted AND
     (EXEC_ALARM example_system_h OR EXEC_CRIT_EVENT example_system_h) = 0 \<and>
   list_ex (\<lambda>irq. irq AND EXEC_RESET example_system_h \<noteq> 0) (reset_irqs reset_arrives_env) \<and>
   SYS_EXEC lockout_then_aborted AND EXEC_RESET example_system_h \<noteq> 0 \<and>
   calls lockout_then_aborted = calls reset_and_critical_event @
     [St_check_disable, Report_alarm_message (sys_alarm reset_and_critical_event),
      Report_feedback_message MESSAGE_CRITICAL_EVENT]"
proof -
  have h1: "SYS_EXEC reset_and_start_in_queued AND EXEC_RESET example_system_h \<noteq> 0"
    and h2: "SYS_EXEC reset_and_start_in_queued AND EXEC_CYCLE_START example_system_h \<noteq> 0"
    and h3: "sys_state reset_and_start_in_queued = STATE_QUEUED example_system_h"
    and h4: "SYS_EXEC reset_and_start_in_queued AND
        (EXEC_ALARM example_system_h OR EXEC_CRIT_EVENT example_system_h) = 0"
    by (simp_all add: reset_and_start_in_queued_def idle_machine_def example_system_h_def)
  have h5: "systick_service_callbacks (callback_body quiet_env)
      (systick reset_and_start_in_queued) = Inr quiet_systick"
    by (simp add: reset_and_start_in_queued_def idle_machine_def quiet_env_def quiet_service)
  have still: "SYS_EXEC aborted_in_queued AND EXEC_CYCLE_START example_system_h \<noteq> 0"
    by (simp add: aborted_in_queued_def reset_and_start_in_queued_def idle_machine_def
        example_system_h_def)
  have calls1: "calls aborted_in_queued = calls reset_and_start_in_queued @ [St_check_disable]"
    by (simp add: aborted_in_queued_def reset_and_start_in_queued_def idle_machine_def)
  from reset_skips_other_flags [OF wf_example h1 h5] h3 h4
  have a: "sys_abort aborted_in_queued \<and>
      sys_flags aborted_in_queued = sys_flags reset_and_start_in_queued \<and>
      sys_state aborted_in_queued = STATE_QUEUED example_system_h"
    by (simp add: pass_reset_and_start)
  have k1: "SYS_EXEC reset_and_critical_event AND EXEC_RESET example_system_h \<noteq> 0"
    and k2: "SYS_EXEC reset_and_critical_event AND EXEC_CRIT_EVENT example_system_h \<noteq> 0"
    and k3: "SYS_EXEC reset_and_critical_event AND
        (EXEC_ALARM example_system_h OR EXEC_CRIT_EVENT example_system_h) \<noteq> 0"
    by (simp_all add: reset_and_critical_event_def idle_machine_def example_system_h_def)
  have k5: "systick_service_callbacks (callback_body reset_arrives_env)
      (systick reset_and_critical_event) = Inr quiet_systick"
    by (simp add: reset_and_critical_event_def idle_machine_def reset_arrives_env_def quiet_env_def
        quiet_service)
  have calls2: "calls lockout_then_aborted = calls reset_and_critical_event @
     [St_check_disable, Report_alarm_message (sys_alarm reset_and_critical_event),
      Report_feedback_message MESSAGE_CRITICAL_EVENT]"
    by (simp add: lockout_then_aborted_def reset_and_critical_event_def idle_machine_def)
  from reset_skips_other_flags [OF wf_example k1 k5] k2 k3
  have b: "sys_abort lockout_then_aborted \<and>
      sys_state lockout_then_aborted = STATE_ALARM example_system_h \<and>
      sys_alarm lockout_then_aborted = 0 \<and>
      SYS_EXEC lockout_then_aborted AND
        (EXEC_ALARM example_system_h OR EXEC_CRIT_EVENT example_system_h) = 0 \<and>
      list_ex (\<lambda>irq. irq AND EXEC_RESET example_system_h \<noteq> 0) (reset_irqs reset_arrives_env) \<and>
      SYS_EXEC lockout_then_aborted AND EXEC_RESET example_system_h \<noteq> 0"
    by (simp add: pass_reset_arrives)
  from wf_example h1 h2 h3 h5 pass_reset_and_start a still calls1 k1 k2 k5 pass_reset_arrives b
    calls2
  show ?thesis
    by (intro conjI) simp_all
qed


text \<open>
  The claim as stated, refuted: reset and alarm in one snapshot, state Idle. The pass
  handles the alarm (state Alarm, alarm 1 reported, alarm bit cleared) before it sets
  abort. And with reset and critical event in one snapshot and no later interrupt, the
  pass does not return at all.
\<close>

theorem reset_after_alarm_counterexample:
  "SYS_EXEC reset_and_alarm AND EXEC_RESET example_system_h \<noteq> 0 \<and>
   SYS_EXEC reset_and_alarm AND EXEC_ALARM example_system_h \<noteq> 0 \<and>
   sys_state reset_and_alarm = STATE_IDLE example_system_h \<and>
   protocol_execute_runtime example_system_h quiet_env reset_and_alarm = Inr alarm_then_aborted \<and>
   sys_state alarm_then_aborted = STATE_ALARM example_system_h \<and>
   SYS_EXEC alarm_then_aborted AND EXEC_ALARM example_system_h = 0 \<and>
   calls alarm_then_aborted = [St_check_disable, Report_alarm_message 1] \<and>
   SYS_EXEC reset_and_critical_event AND EXEC_RESET example_system_h \<noteq> 0 \<and>
   protocol_execute_runtime example_system_h quiet_env reset_and_critical_event =
     Inl Never_returns"
  by (simp add: pass_reset_and_alarm pass_reset_and_critical_event)
    (simp add: alarm_then_aborted_def reset_and_alarm_def reset_and_critical_event_def
      idle_machine_def example_system_h_def)


section \<open>The dispatcher: the critical-event lockout\<close>




section \<open>The dispatcher: waiting for the planner to drain\<close>

lemma loop_after_turns:
  "turns_passed c pre s = Some s1 \<Longrightarrow>
   synchronize_loop c (pre @ rest) s = synchronize_loop c rest s1"
proof (induction pre arbitrary: s)
  case Nil
  then show ?case by simp
next
  case (Cons e pre)
  obtain current_block irq env where e: "e = (current_block, irq, env)" by (cases e)
  from Cons.prems e have test: "current_block \<or> sys_state s = STATE_CYCLE c"
    by (auto split: if_splits)
  from Cons.prems e test obtain s' where
    pass: "protocol_execute_runtime c env (s\<lparr>SYS_EXEC := SYS_EXEC s OR irq\<rparr>) = Inr s'"
    and na: "\<not> sys_abort s'" and rest: "turns_passed c pre s' = Some s1"
    by (auto split: sum.splits if_splits)
  from Cons.IH [OF rest] e test pass na show ?case by simp
qed

lemma loop_return:
  assumes "synchronize_loop c envs s = Some (Inr (obs, s'))"
  shows "(obs = None \<and> sys_abort s' \<and>
           (\<exists>pre current_block irq env post s1.
              envs = pre @ (current_block, irq, env) # post \<and>
              turns_passed c pre s = Some s1 \<and>
              (current_block \<or> sys_state s1 = STATE_CYCLE c) \<and>
              protocol_execute_runtime c env (s1\<lparr>SYS_EXEC := SYS_EXEC s1 OR irq\<rparr>) = Inr s')) \<or>
         (obs = Some False \<and> sys_state s' \<noteq> STATE_CYCLE c \<and>
           (\<exists>pre irq env post.
              envs = pre @ (False, irq, env) # post \<and> turns_passed c pre s = Some s'))"
  using assms
proof (induction envs arbitrary: s)
  case Nil
  then show ?case by simp
next
  case (Cons e envs)
  obtain current_block irq env where e: "e = (current_block, irq, env)" by (cases e)
  show ?case
  proof (cases "current_block \<or> sys_state s = STATE_CYCLE c")
    case False
    with Cons.prems e have r: "obs = Some False" "s' = s" "\<not> current_block"
      by auto
    have "e # envs = [] @ (False, irq, env) # envs \<and> turns_passed c [] s = Some s"
      using e r by simp
    then have "\<exists>pre irq env post.
        e # envs = pre @ (False, irq, env) # post \<and> turns_passed c pre s = Some s'"
      using r by blast
    with r False show ?thesis by simp
  next
    case True
    show ?thesis
    proof (cases "protocol_execute_runtime c env (s\<lparr>SYS_EXEC := SYS_EXEC s OR irq\<rparr>)")
      case (Inl h)
      with True Cons.prems e show ?thesis by simp
    next
      case (Inr s1)
      show ?thesis
      proof (cases "sys_abort s1")
        case abort: True
        with Inr True Cons.prems e have r: "obs = None" "s' = s1"
          by auto
        have "e # envs = [] @ (current_block, irq, env) # envs \<and> turns_passed c [] s = Some s \<and>
            (current_block \<or> sys_state s = STATE_CYCLE c) \<and>
            protocol_execute_runtime c env (s\<lparr>SYS_EXEC := SYS_EXEC s OR irq\<rparr>) = Inr s'"
          using e r Inr True by simp
        then have "\<exists>pre current_block irq env post s1.
            e # envs = pre @ (current_block, irq, env) # post \<and>
            turns_passed c pre s = Some s1 \<and>
            (current_block \<or> sys_state s1 = STATE_CYCLE c) \<and>
            protocol_execute_runtime c env (s1\<lparr>SYS_EXEC := SYS_EXEC s1 OR irq\<rparr>) = Inr s'"
          by blast
        with r abort show ?thesis by simp
      next
        case False
        with Inr True Cons.prems e have "synchronize_loop c envs s1 = Some (Inr (obs, s'))"
          by simp
        from Cons.IH [OF this] have
          "(obs = None \<and> sys_abort s' \<and>
             (\<exists>pre current_block irq env post s2.
                envs = pre @ (current_block, irq, env) # post \<and>
                turns_passed c pre s1 = Some s2 \<and>
                (current_block \<or> sys_state s2 = STATE_CYCLE c) \<and>
                protocol_execute_runtime c env (s2\<lparr>SYS_EXEC := SYS_EXEC s2 OR irq\<rparr>) = Inr s')) \<or>
           (obs = Some False \<and> sys_state s' \<noteq> STATE_CYCLE c \<and>
             (\<exists>pre irq env post.
                envs = pre @ (False, irq, env) # post \<and> turns_passed c pre s1 = Some s'))" .
        then show ?thesis
        proof
          assume a: "obs = None \<and> sys_abort s' \<and>
             (\<exists>pre current_block irq env post s2.
                envs = pre @ (current_block, irq, env) # post \<and>
                turns_passed c pre s1 = Some s2 \<and>
                (current_block \<or> sys_state s2 = STATE_CYCLE c) \<and>
                protocol_execute_runtime c env (s2\<lparr>SYS_EXEC := SYS_EXEC s2 OR irq\<rparr>) = Inr s')"
          then obtain pre cb' irq' env' post s2 where
            d: "envs = pre @ (cb', irq', env') # post" and
            t: "turns_passed c pre s1 = Some s2" and
            q: "cb' \<or> sys_state s2 = STATE_CYCLE c" and
            p: "protocol_execute_runtime c env' (s2\<lparr>SYS_EXEC := SYS_EXEC s2 OR irq'\<rparr>) = Inr s'"
            by blast
          from d e have d': "e # envs = (e # pre) @ (cb', irq', env') # post" by simp
          from t e True Inr False have t': "turns_passed c (e # pre) s = Some s2" by simp
          from d' t' q p have "\<exists>pre current_block irq env post s1.
            e # envs = pre @ (current_block, irq, env) # post \<and>
            turns_passed c pre s = Some s1 \<and>
            (current_block \<or> sys_state s1 = STATE_CYCLE c) \<and>
            protocol_execute_runtime c env (s1\<lparr>SYS_EXEC := SYS_EXEC s1 OR irq\<rparr>) = Inr s'"
            by blast
          with a show ?thesis by simp
        next
          assume a: "obs = Some False \<and> sys_state s' \<noteq> STATE_CYCLE c \<and>
             (\<exists>pre irq env post.
                envs = pre @ (False, irq, env) # post \<and> turns_passed c pre s1 = Some s')"
          then obtain pre irq' env' post where
            d: "envs = pre @ (False, irq', env') # post" and
            t: "turns_passed c pre s1 = Some s'"
            by blast
          from d e have d': "e # envs = (e # pre) @ (False, irq', env') # post" by simp
          from t e True Inr False have t': "turns_passed c (e # pre) s = Some s'" by simp
          from d' t' have "\<exists>pre irq env post.
            e # envs = pre @ (False, irq, env) # post \<and> turns_passed c pre s = Some s'"
            by blast
          with a show ?thesis by simp
        qed
      qed
    qed
  qed
qed

lemma synchronize_as_loop:
  "protocol_buffer_synchronize c envs s = synchronize_loop c envs (synchronize_entry c s)"
  by (simp add: protocol_buffer_synchronize_def synchronize_entry_def)

text \<open>
  Claim C7: whenever \<open>protocol_buffer_synchronize\<close> returns, either the abort condition is
  set, or both the planner queue is empty (\<^verbatim>\<open>plan_get_current_block()\<close> yields none)
  and the machine state is not Cycle; and if abort is set at any iteration it returns
  immediately without further waiting.

  In terms of the turns the function goes through (what \<^verbatim>\<open>plan_get_current_block()\<close>
  returns to the loop test of each, the interrupts, the environment of its pass):

  \<^item> a return comes either from inside the loop, after the dispatcher pass of one of
    the turns, which left abort set, or from the loop test of one of the turns, which
    read an empty planner queue in a state other than Cycle; the function was still
    waiting after the turns before that one, and the state at the return is the one
    that pass left, or the one in which that loop test was made;

  \<^item> when the function is still waiting after some turns and the pass of the next turn
    leaves abort set, the function returns with the state of that pass, whatever turns
    would follow;

  \<^item> when the function is still waiting after some turns, in a state other than Cycle,
    and the loop test of the next turn reads an empty planner queue, the function
    returns in that state, whatever turns would follow.
\<close>

theorem synchronize_returns_drained_or_aborted:
  "(\<forall>obs s'. protocol_buffer_synchronize c envs s = Some (Inr (obs, s')) \<longrightarrow>
      (obs = None \<and> sys_abort s' \<and>
        (\<exists>pre current_block irq env post s1.
           envs = pre @ (current_block, irq, env) # post \<and>
           turns_passed c pre (synchronize_entry c s) = Some s1 \<and>
           (current_block \<or> sys_state s1 = STATE_CYCLE c) \<and>
           protocol_execute_runtime c env (s1\<lparr>SYS_EXEC := SYS_EXEC s1 OR irq\<rparr>) = Inr s')) \<or>
      (obs = Some False \<and> sys_state s' \<noteq> STATE_CYCLE c \<and>
        (\<exists>pre irq env post.
           envs = pre @ (False, irq, env) # post \<and>
           turns_passed c pre (synchronize_entry c s) = Some s'))) \<and>
   (\<forall>pre current_block irq env post s1 s2.
      turns_passed c pre (synchronize_entry c s) = Some s1 \<longrightarrow>
      (current_block \<or> sys_state s1 = STATE_CYCLE c) \<longrightarrow>
      protocol_execute_runtime c env (s1\<lparr>SYS_EXEC := SYS_EXEC s1 OR irq\<rparr>) = Inr s2 \<longrightarrow>
      sys_abort s2 \<longrightarrow>
      protocol_buffer_synchronize c (pre @ (current_block, irq, env) # post) s =
        Some (Inr (None, s2))) \<and>
   (\<forall>pre irq env post s1.
      turns_passed c pre (synchronize_entry c s) = Some s1 \<longrightarrow>
      sys_state s1 \<noteq> STATE_CYCLE c \<longrightarrow>
      protocol_buffer_synchronize c (pre @ (False, irq, env) # post) s =
        Some (Inr (Some False, s1)))"
proof (intro conjI allI impI)
  fix obs s'
  assume "protocol_buffer_synchronize c envs s = Some (Inr (obs, s'))"
  then have "synchronize_loop c envs (synchronize_entry c s) = Some (Inr (obs, s'))"
    by (simp only: synchronize_as_loop)
  then show "(obs = None \<and> sys_abort s' \<and>
        (\<exists>pre current_block irq env post s1.
           envs = pre @ (current_block, irq, env) # post \<and>
           turns_passed c pre (synchronize_entry c s) = Some s1 \<and>
           (current_block \<or> sys_state s1 = STATE_CYCLE c) \<and>
           protocol_execute_runtime c env (s1\<lparr>SYS_EXEC := SYS_EXEC s1 OR irq\<rparr>) = Inr s')) \<or>
      (obs = Some False \<and> sys_state s' \<noteq> STATE_CYCLE c \<and>
        (\<exists>pre irq env post.
           envs = pre @ (False, irq, env) # post \<and>
           turns_passed c pre (synchronize_entry c s) = Some s'))"
    by (rule loop_return)
next
  fix pre current_block irq env post s1 s2
  assume t: "turns_passed c pre (synchronize_entry c s) = Some s1"
    and test: "current_block \<or> sys_state s1 = STATE_CYCLE c"
    and pass: "protocol_execute_runtime c env (s1\<lparr>SYS_EXEC := SYS_EXEC s1 OR irq\<rparr>) = Inr s2"
    and abort: "sys_abort s2"
  from test pass abort
  have "synchronize_loop c ((current_block, irq, env) # post) s1 = Some (Inr (None, s2))"
    by simp
  with loop_after_turns [OF t, of "(current_block, irq, env) # post"]
  show "protocol_buffer_synchronize c (pre @ (current_block, irq, env) # post) s =
      Some (Inr (None, s2))"
    by (simp only: synchronize_as_loop)
next
  fix pre irq env post s1
  assume t: "turns_passed c pre (synchronize_entry c s) = Some s1"
    and st: "sys_state s1 \<noteq> STATE_CYCLE c"
  from st have "synchronize_loop c ((False, irq, env) # post) s1 = Some (Inr (Some False, s1))"
    by simp
  with loop_after_turns [OF t, of "(False, irq, env) # post"]
  show "protocol_buffer_synchronize c (pre @ (False, irq, env) # post) s =
      Some (Inr (Some False, s1))"
    by (simp only: synchronize_as_loop)
qed

theorem synchronize_returns_drained_or_aborted_witness:
  "protocol_buffer_synchronize example_system_h
     [(True, 0, block_pending_env), (False, 4, quiet_env), (False, 0, quiet_env)]
     cycle_running = Some (Inr (Some False, drained)) \<and>
   sys_state drained \<noteq> STATE_CYCLE example_system_h \<and>
   \<not> sys_abort drained \<and>
   turns_passed example_system_h [(True, 0, block_pending_env), (False, 4, quiet_env)]
     (synchronize_entry example_system_h cycle_running) = Some drained \<and>
   protocol_buffer_synchronize example_system_h
     [(True, 0, block_pending_env), (False, 4, quiet_env), (False, 0, quiet_env),
      (True, 0, block_pending_env)]
     cycle_running = Some (Inr (Some False, drained)) \<and>
   turns_passed example_system_h [(True, 0, block_pending_env)]
     (synchronize_entry example_system_h cycle_running) = Some still_running \<and>
   sys_state still_running = STATE_CYCLE example_system_h \<and>
   protocol_execute_runtime example_system_h quiet_env
     (still_running\<lparr>SYS_EXEC := SYS_EXEC still_running OR 16\<rparr>) = Inr aborted_waiting \<and>
   sys_abort aborted_waiting \<and>
   protocol_buffer_synchronize example_system_h
     [(True, 0, block_pending_env), (False, 16, quiet_env), (True, 0, block_pending_env)]
     cycle_running = Some (Inr (None, aborted_waiting))"
proof -
  note returned = synchronize_returns_drained_or_aborted
    [of example_system_h
      "[(True, 0, block_pending_env), (False, 4, quiet_env), (False, 0, quiet_env)]"
      cycle_running]
  from conjunct1 [OF returned] synchronize_drains
  have a: "sys_state drained \<noteq> STATE_CYCLE example_system_h"
    by blast
  have b: "\<not> sys_abort drained"
    by (simp add: drained_def cycle_running_def idle_machine_def)
  have c: "sys_state still_running = STATE_CYCLE example_system_h"
    by (simp add: still_running_def cycle_running_def idle_machine_def example_system_h_def)
  have d: "sys_abort aborted_waiting"
    by (simp add: aborted_waiting_def)
  from conjunct2 [OF conjunct2 [OF returned]] turns_drained a
  have e: "protocol_buffer_synchronize example_system_h
     ([(True, 0, block_pending_env), (False, 4, quiet_env)] @
        (False, 0, quiet_env) # [(True, 0, block_pending_env)])
     cycle_running = Some (Inr (Some False, drained))"
    by blast
  from conjunct1 [OF conjunct2 [OF returned]] turns_still_running c pass_reset_while_waiting d
  have f: "protocol_buffer_synchronize example_system_h
     ([(True, 0, block_pending_env)] @ (False, 16, quiet_env) # [(True, 0, block_pending_env)])
     cycle_running = Some (Inr (None, aborted_waiting))"
    by blast
  from synchronize_drains a b turns_drained e turns_still_running c pass_reset_while_waiting d f
  show ?thesis
    by (intro conjI) simp_all
qed

section \<open>The dispatcher: which bits a pass clears\<close>

lemma keeps_refl: "(x AND m) AND NOT x = (0 :: 8 word)"
  by (auto simp: bit_eq_iff bit_simps)

lemma keeps_clear: "m AND k = 0 \<Longrightarrow> (x AND m) AND NOT (x AND NOT k) = (0 :: 8 word)"
  by (auto simp: bit_eq_iff bit_simps)

lemma keeps_trans:
  "(a AND m) AND NOT b = 0 \<Longrightarrow> (b AND m) AND NOT d = 0 \<Longrightarrow> (a AND m) AND NOT d = (0 :: 8 word)"
  by (auto simp: bit_eq_iff bit_simps)

lemma report_SYS_EXEC:
  "SYS_EXEC (exec_runtime_report c env s) = SYS_EXEC s \<or>
   SYS_EXEC (exec_runtime_report c env s) = SYS_EXEC s AND NOT (EXEC_RUNTIME_REPORT c)"
  by (simp add: exec_runtime_report_def call_def Let_def split: prod.splits)

lemma report_keeps:
  assumes "m AND EXEC_RUNTIME_REPORT c = 0"
  shows "(SYS_EXEC s AND m) AND NOT (SYS_EXEC (exec_runtime_report c env s)) = 0"
  using report_SYS_EXEC [of c env s] keeps_refl [of "SYS_EXEC s" m]
    keeps_clear [OF assms, of "SYS_EXEC s"]
  by (elim disjE) (simp_all only:)

lemma feed_hold_SYS_EXEC:
  "SYS_EXEC (exec_feed_hold c s) = SYS_EXEC s AND NOT (EXEC_FEED_HOLD c)"
  by (simp add: exec_feed_hold_def call_def Let_def)

lemma feed_hold_keeps:
  assumes "m AND EXEC_FEED_HOLD c = 0"
  shows "(SYS_EXEC s AND m) AND NOT (SYS_EXEC (exec_feed_hold c s)) = 0"
  by (simp only: feed_hold_SYS_EXEC keeps_clear [OF assms])

lemma cycle_start_keeps: "SYS_EXEC (exec_cycle_start c s) = SYS_EXEC s"
  by (simp add: exec_cycle_start_def call_def Let_def)

lemma cycle_stop_SYS_EXEC:
  "SYS_EXEC (exec_cycle_stop c env s) = SYS_EXEC s AND NOT (EXEC_CYCLE_STOP c)"
  by (simp add: exec_cycle_stop_def Let_def)

lemma cycle_stop_keeps:
  assumes "m AND EXEC_CYCLE_STOP c = 0"
  shows "(SYS_EXEC s AND m) AND NOT (SYS_EXEC (exec_cycle_stop c env s)) = 0"
  by (simp only: cycle_stop_SYS_EXEC keeps_clear [OF assms])

lemma exec_flags_keeps:
  assumes dis: "m AND EXEC_RUNTIME_REPORT c = 0" "m AND EXEC_FEED_HOLD c = 0"
    "m AND EXEC_CYCLE_STOP c = 0"
  shows "(SYS_EXEC s AND m) AND NOT (SYS_EXEC (exec_flags c env rt_exec s)) = 0"
proof -
  define s1 where "s1 = (if rt_exec AND EXEC_RUNTIME_REPORT c \<noteq> 0 then exec_runtime_report c env s else s)"
  define s2 where "s2 = (if rt_exec AND EXEC_FEED_HOLD c \<noteq> 0 then exec_feed_hold c s1 else s1)"
  define s3 where "s3 = (if rt_exec AND EXEC_CYCLE_START c \<noteq> 0 \<and>
                   sys_state s2 AND (STATE_HOMING c OR STATE_FORCESERVO c OR STATE_PROBING c) = 0
                then exec_cycle_start c s2 else s2)"
  have k1: "(SYS_EXEC s AND m) AND NOT (SYS_EXEC s1) = 0"
    by (simp add: s1_def report_keeps [OF dis(1)] keeps_refl)
  have k2: "(SYS_EXEC s1 AND m) AND NOT (SYS_EXEC s2) = 0"
    by (simp add: s2_def feed_hold_keeps [OF dis(2)] keeps_refl)
  have k3: "SYS_EXEC s3 = SYS_EXEC s2"
    by (simp add: s3_def cycle_start_keeps)
  have ef: "exec_flags c env rt_exec s =
      (if rt_exec AND EXEC_CYCLE_STOP c \<noteq> 0 then exec_cycle_stop c env s3 else s3)"
    by (simp add: exec_flags_def Let_def s1_def s2_def s3_def)
  have k4: "(SYS_EXEC s2 AND m) AND NOT (SYS_EXEC (exec_flags c env rt_exec s)) = 0"
    using cycle_stop_keeps [OF dis(3), of s3 env] by (simp add: ef k3 keeps_refl)
  from keeps_trans [OF keeps_trans [OF k1 k2] k4] show ?thesis .
qed


text \<open>No pass that returns clears a pending cycle-start bit, in whatever state.\<close>

lemma cycle_start_stays_pending:
  assumes wf: "wf_system_h c"
    and run: "protocol_execute_runtime c env s = Inr s'"
  shows "(SYS_EXEC s AND EXEC_CYCLE_START c) AND NOT (SYS_EXEC s') = 0"
proof -
  let ?m = "EXEC_CYCLE_START c"
  from wf have dis: "?m AND EXEC_RUNTIME_REPORT c = 0" "?m AND EXEC_FEED_HOLD c = 0"
    "?m AND EXEC_CYCLE_STOP c = 0" "?m AND EXEC_RESET c = 0" "?m AND EXEC_ALARM c = 0"
    "?m AND EXEC_CRIT_EVENT c = 0"
    by (simp_all add: wf_system_h_def and.commute)
  from run obtain s1 where pro: "pass_prologue c env s = Inr s1"
    by (auto simp: protocol_execute_runtime_def Let_def split: sum.splits)
  have "SYS_EXEC s AND NOT (SYS_EXEC s1) = 0"
    by (rule prologue_frame(4) [OF pro])
  then have k1: "(SYS_EXEC s AND ?m) AND NOT (SYS_EXEC s1) = 0"
    by (auto simp: bit_eq_iff bit_simps)
  have tail: "(SYS_EXEC a AND ?m) AND NOT
      (SYS_EXEC (reload_and_clear_io_reset c (exec_flags c env rt a))) = 0" for a rt
    by (simp add: reload_frame exec_flags_keeps [OF dis(1-3)])
  have "(SYS_EXEC s1 AND ?m) AND NOT (SYS_EXEC s') = 0"
  proof (cases "SYS_EXEC s = 0")
    case True
    with run pro have "s' = reload_and_clear_io_reset c s1"
      by (simp add: protocol_execute_runtime_def)
    then show ?thesis by (simp add: reload_frame keeps_refl)
  next
    case nz: False
    show ?thesis
    proof (cases "SYS_EXEC s AND (EXEC_ALARM c OR EXEC_CRIT_EVENT c) = 0")
      case True
      with run pro nz have "s' = s1\<lparr>sys_abort := True\<rparr> \<or>
          s' = reload_and_clear_io_reset c (exec_flags c env (SYS_EXEC s) s1)"
        by (auto simp: protocol_execute_runtime_def Let_def split: if_splits)
      with tail [of s1] show ?thesis
        by (auto simp: keeps_refl)
    next
      case False
      with run pro nz obtain s2 where a: "exec_alarm c env (SYS_EXEC s) s1 = Inr s2"
        and s': "s' = s2\<lparr>sys_abort := True\<rparr> \<or>
          s' = reload_and_clear_io_reset c (exec_flags c env (SYS_EXEC s) s2)"
        by (auto simp: protocol_execute_runtime_def Let_def split: if_splits sum.splits)
      note k2 = alarm_pending [OF a dis(4-6)]
      from s' tail [of s2] have "(SYS_EXEC s2 AND ?m) AND NOT (SYS_EXEC s') = 0"
        by (auto simp: keeps_refl)
      from keeps_trans [OF k2 this] show ?thesis .
    qed
  qed
  from keeps_trans [OF k1 this] show ?thesis .
qed


text \<open>
  Claim C1: for every snapshot of the runtime flag word processed in one dispatcher pass,
  the dispatcher clears exactly the flag bits whose effect it fully applied in that pass
  and leaves all other bits pending for later passes; in particular every handled bit
  (including CycleStart handled in state Queued) is cleared after its effect is applied,
  so no flag is lost and none is handled twice.

  The cycle-start branch of the source has no
  \<^verbatim>\<open>bit_false(SYS_EXEC,EXEC_CYCLE_START)\<close>, where the feed-hold and cycle-stop
  branches beside it clear their bits. Run on the code: with the cycle-start bit alone
  in the snapshot and the state Queued, the pass starts the cycle and leaves the bit
  set; the stepper then raises cycle stop with a block still queued, and the next pass
  puts the state back to Queued; the pass after that, with no new request, handles the
  same cycle-start bit again and starts the cycle a second time.
\<close>

theorem cycle_start_handled_twice:
  "SYS_EXEC start_in_queued = EXEC_CYCLE_START example_system_h \<and>
   sys_state start_in_queued = STATE_QUEUED example_system_h \<and>
   protocol_execute_runtime example_system_h quiet_env start_in_queued = Inr started \<and>
   sys_state started = STATE_CYCLE example_system_h \<and>
   SYS_EXEC started = EXEC_CYCLE_START example_system_h \<and>
   protocol_execute_runtime example_system_h block_pending_env
     (started\<lparr>SYS_EXEC := SYS_EXEC started OR EXEC_CYCLE_STOP example_system_h\<rparr>) =
     Inr stopped \<and>
   sys_state stopped = STATE_QUEUED example_system_h \<and>
   protocol_execute_runtime example_system_h quiet_env stopped = Inr restarted \<and>
   sys_state restarted = STATE_CYCLE example_system_h \<and>
   calls restarted =
     [St_check_disable, St_prep_buffer, St_wake_up, St_prep_buffer,
      St_check_disable,
      St_check_disable, Report_realtime_status, St_prep_buffer, St_wake_up, St_prep_buffer]"
proof -
  have p1: "protocol_execute_runtime example_system_h quiet_env start_in_queued = Inr started"
    by (simp add: example_defs start_in_queued_def started_def)
  have p2: "protocol_execute_runtime example_system_h block_pending_env
     (started\<lparr>SYS_EXEC := SYS_EXEC started OR EXEC_CYCLE_STOP example_system_h\<rparr>) =
     Inr stopped"
    by (simp add: example_defs start_in_queued_def started_def stopped_def)
  have p3: "protocol_execute_runtime example_system_h quiet_env stopped = Inr restarted"
    by (simp add: example_defs start_in_queued_def started_def stopped_def restarted_def)
  show ?thesis
    by (simp add: p1 p2 p3)
      (simp add: start_in_queued_def started_def stopped_def restarted_def idle_machine_def
        example_system_h_def)
qed


end
